theory Spec2Isabelle
  imports Main
begin

section \<open>Input selection of the wallet: data model\<close>

text \<open>
  The source file holds two revisions of the input-selection module.  The first one
  (\<^verbatim>\<open>prepareInputs(addressData, threshold, maxInputs = 2, security)\<close>) receives the
  address data as a dictionary keyed by address, the second one
  (\<^verbatim>\<open>prepareInputs(addressData, threshold, limit = 2, security)\<close>) as an array of address
  objects.  Both are modelled over a list of address entries in pool order.
\<close>

section \<open>Numbers\<close>

text \<open>
  Balances and thresholds are numbers of the language, that is IEEE 754 doubles, holding
  integers.  They are modelled by the integers they hold; a sum or a difference of two of
  them is the exact result rounded to the nearest double, ties to the even significand
  (\<open>round53\<close>): an integer of magnitude up to \<open>2^53\<close> is itself, a larger one keeps its 53
  leading bits.  The range of the exponent is not modelled (no integer that occurs in a
  wallet comes near \<open>2^1024\<close>).
\<close>

fun bit_length :: "nat \<Rightarrow> nat" where
  "bit_length n = (if n = 0 then 0 else Suc (bit_length (n div 2)))"

definition MAX_EXACT :: int where
  "MAX_EXACT = 9007199254740992"

definition round53 :: "int \<Rightarrow> int" where
  "round53 x =
     (if \<bar>x\<bar> \<le> MAX_EXACT then x
      else
        (let k = bit_length (nat \<bar>x\<bar>) - 53;
             q = \<bar>x\<bar> div 2 ^ k;
             r = \<bar>x\<bar> mod 2 ^ k;
             half = 2 ^ (k - 1);
             q' = (if r > half \<or> (r = half \<and> odd q) then q + 1 else q)
         in sgn x * (q' * 2 ^ k)))"

text \<open>\<^verbatim>\<open>a + b\<close> and \<^verbatim>\<open>a - b\<close> on numbers.\<close>

definition jsAdd :: "int \<Rightarrow> int \<Rightarrow> int" where
  "jsAdd a b = round53 (a + b)"

definition jsSub :: "int \<Rightarrow> int \<Rightarrow> int" where
  "jsSub a b = round53 (a - b)"

text \<open>\<^verbatim>\<open>reduce(xs, (acc, x) => acc + x, 0)\<close>: the sum from the left, rounded at every step.\<close>

definition jsSum :: "int list \<Rightarrow> int" where
  "jsSum xs = foldl jsAdd 0 xs"

section \<open>The address data\<close>

record addr_balance =
  address :: string
  balance :: int

text \<open>An entry of the address data (\<^verbatim>\<open>AddressSchema\<close>: address, index, balance, spent).\<close>

record address_entry = addr_balance +
  index :: int
  spent_local :: bool
  spent_remote :: bool

text \<open>An input, as produced by \<^verbatim>\<open>transformAddressDataToInputs\<close>.\<close>

record input = addr_balance +
  security :: int
  keyIndex :: int

text \<open>
  For the statements: a pool on which all this arithmetic is exact, namely balances that
  are not negative and whose total is at most \<open>2^53\<close>.
\<close>

definition exact_pool :: "('a addr_balance_scheme) list \<Rightarrow> bool" where
  "exact_pool pool \<longleftrightarrow>
     (\<forall>e\<in>set pool. 0 \<le> balance e) \<and> sum_list (map balance pool) \<le> MAX_EXACT"

text \<open>
  The messages of the \<^verbatim>\<open>Errors\<close> table that the module throws, by their keys.
  \<open>TYPE_ERROR\<close> stands for the \<^verbatim>\<open>TypeError\<close> the runtime raises on a property read or a
  destructuring of \<^verbatim>\<open>undefined\<close>; \<open>REJECTED\<close> is a rejection of a collaborator's promise.
\<close>

datatype error =
    INSUFFICIENT_BALANCE
  | INPUTS_THRESHOLD_CANNOT_BE_ZERO
  | INVALID_MAX_INPUTS_PROVIDED
  | INPUTS_LIMIT_CANNOT_BE_ZERO
  | SOMETHING_WENT_WRONG_DURING_INPUT_SELECTION
  | CANNOT_FIND_INPUTS_WITH_PROVIDED_LIMIT
  | INCOMING_TRANSFERS
  | ADDRESS_HAS_PENDING_TRANSFERS
  | FUNDS_AT_SPENT_ADDRESSES
  | NODE_NOT_SYNCED
  | TYPE_ERROR
  | REJECTED string

text \<open>
  The limit argument as the caller passes it: left out (\<^verbatim>\<open>undefined\<close>, which takes the
  parameter's default), \<^verbatim>\<open>null\<close>, or a number.
\<close>

datatype limit_arg = Undefined | Null | Num int

section \<open>The lodash helpers the module uses\<close>

text \<open>\<^verbatim>\<open>head(xs)\<close>: the first element, \<^verbatim>\<open>undefined\<close> (here \<open>None\<close>) on an empty array.\<close>

fun head :: "'a list \<Rightarrow> 'a option" where
  "head [] = None"
| "head (x # xs) = Some x"

text \<open>\<^verbatim>\<open>differenceBy(xs, ys, 'address')\<close>: the elements of \<open>xs\<close> whose address no element
  of \<open>ys\<close> has, in the order of \<open>xs\<close>.\<close>

definition differenceBy :: "('a addr_balance_scheme) list \<Rightarrow> ('b addr_balance_scheme) list
    \<Rightarrow> ('a addr_balance_scheme) list" where
  "differenceBy xs ys = filter (\<lambda>x. address x \<notin> set (map address ys)) xs"

text \<open>\<^verbatim>\<open>uniqBy(xs, 'balance')\<close>: the first element of every balance, in the order of \<open>xs\<close>.
  The accumulator holds the balances seen so far.\<close>

fun uniqBy_seen :: "int list \<Rightarrow> ('a addr_balance_scheme) list \<Rightarrow> ('a addr_balance_scheme) list" where
  "uniqBy_seen seen [] = []"
| "uniqBy_seen seen (x # xs) =
     (if balance x \<in> set seen then uniqBy_seen seen xs
      else x # uniqBy_seen (balance x # seen) xs)"

definition uniqBy :: "('a addr_balance_scheme) list \<Rightarrow> ('a addr_balance_scheme) list" where
  "uniqBy xs = uniqBy_seen [] xs"

text \<open>\<^verbatim>\<open>minBy(xss, size)\<close>: the first element of least size; \<^verbatim>\<open>undefined\<close> on an empty
  array.  The current element is replaced only by a strictly smaller one.\<close>

fun minBy_from :: "'a list \<Rightarrow> 'a list list \<Rightarrow> 'a list" where
  "minBy_from cur [] = cur"
| "minBy_from cur (xs # xss) = minBy_from (if length xs < length cur then xs else cur) xss"

fun minBy :: "'a list list \<Rightarrow> 'a list option" where
  "minBy [] = None"
| "minBy (xs # xss) = Some (minBy_from xs xss)"

section \<open>The selection\<close>

text \<open>
  Modelled from the spec: \<^verbatim>\<open>transformAddressDataToInputs\<close> is imported from
  \<^verbatim>\<open>./addresses\<close>, which is not part of the sources at hand.  The spec describes an input as
  the projection \<open>{address, balance, security, keyIndex}\<close> of an address entry.
\<close>

definition transformAddressDataToInputs :: "address_entry list \<Rightarrow> int \<Rightarrow> input list" where
  "transformAddressDataToInputs addressData sec =
     map (\<lambda>a. \<lparr>address = address a, balance = balance a, security = sec, keyIndex = index a\<rparr>)
       addressData"

text \<open>
  \<^verbatim>\<open>inputs.slice().sort((a, b) => Math.abs(diff - a.balance) - Math.abs(diff - b.balance))\<close>.
  The sort of the language is stable; \<^const>\<open>sort_key\<close> is a stable insertion sort.  The
  comparator's result has the sign of the exact difference of the two distances (rounding
  is monotone and keeps the sign), so the inputs are sorted by the computed distance.
\<close>

definition sortInputsByOptimalValue :: "input list \<Rightarrow> int \<Rightarrow> input list" where
  "sortInputsByOptimalValue inputs diff = sort_key (\<lambda>a. \<bar>jsSub diff (balance a)\<bar>) inputs"

text \<open>
  The greedy pass, \<^verbatim>\<open>while (availableBalance < threshold) { ... }\<close>, with the loop's two
  variables as arguments.  When no input is left, \<^verbatim>\<open>head(sortedInputs)\<close> is
  \<^verbatim>\<open>undefined\<close> and reading its balance raises a \<^verbatim>\<open>TypeError\<close>.
\<close>

function greedy :: "input list \<Rightarrow> int \<Rightarrow> input list \<Rightarrow> int \<Rightarrow> error + (input list \<times> int)" where
  "greedy inputs threshold selectedInputsByOptimalValue availableBalance =
     (if availableBalance < threshold then
        (case head (sortInputsByOptimalValue
                      (differenceBy inputs selectedInputsByOptimalValue)
                      (jsSub threshold availableBalance)) of
           None \<Rightarrow> Inl TYPE_ERROR
         | Some inp \<Rightarrow>
             greedy inputs threshold (selectedInputsByOptimalValue @ [inp])
               (jsAdd availableBalance (balance inp)))
      else Inr (selectedInputsByOptimalValue, availableBalance))"
  by pat_completeness auto

termination greedy
proof (relation "measure (\<lambda>(inputs, threshold, sel, avail). length (differenceBy inputs sel))")
  show "wf (measure (\<lambda>(inputs, threshold, sel, avail). length (differenceBy inputs sel)))"
    by simp
next
  fix inputs :: "input list" and threshold avail :: int and sel :: "input list" and x :: input
  assume "head (sortInputsByOptimalValue (differenceBy inputs sel) (jsSub threshold avail)) = Some x"
  then have "x \<in> set (sortInputsByOptimalValue (differenceBy inputs sel) (jsSub threshold avail))"
    by (cases "sortInputsByOptimalValue (differenceBy inputs sel) (jsSub threshold avail)") auto
  then have mem: "x \<in> set (differenceBy inputs sel)"
    by (simp add: sortInputsByOptimalValue_def)
  have "differenceBy inputs (sel @ [x])
      = filter (\<lambda>y. address y \<noteq> address x) (differenceBy inputs sel)"
    by (auto simp: differenceBy_def intro: filter_cong)
  moreover have "length (filter (\<lambda>y. address y \<noteq> address x) (differenceBy inputs sel))
      < length (differenceBy inputs sel)"
    using mem by (intro length_filter_less[of x]) auto
  ultimately show "((inputs, threshold, sel @ [x], jsAdd avail (balance x)), inputs, threshold, sel, avail)
      \<in> measure (\<lambda>(inputs, threshold, sel, avail). length (differenceBy inputs sel))"
    by simp
qed

section \<open>The subset-sum search\<close>

text \<open>
  The variables that the closure returned by \<^verbatim>\<open>subsetSumWithLimit\<close> shares between the
  calls of \<^verbatim>\<open>calculate\<close>.
\<close>

record search_state =
  hasFoundAnExactMatch :: bool
  hasFoundNoMatches :: bool
  exactMatches :: "int list list"
  exceeded :: "int list list"
  callTimes :: nat
  sizeOfBalances :: nat

definition initial_state :: search_state where
  "initial_state = \<lparr>hasFoundAnExactMatch = False, hasFoundNoMatches = False,
     exactMatches = [], exceeded = [], callTimes = 0, sizeOfBalances = 0\<rparr>"

text \<open>
  \<open>calculate\<close> returns what the source's \<^verbatim>\<open>calculate\<close> returns (\<open>None\<close> for
  \<^verbatim>\<open>undefined\<close>, otherwise the arrays \<open>exactMatches\<close> and \<open>exceeded\<close>) together with the
  state it leaves.  \<open>each_from\<close> is \<^verbatim>\<open>each(balances, (balance, index) => ...)\<close> from
  position \<open>idx\<close> on: its list argument is what remains of \<open>balances\<close> from \<open>idx\<close>, so
  that the tail after the current element is \<^verbatim>\<open>balances.slice(index + 1)\<close>.
\<close>

fun calculate :: "int \<Rightarrow> nat \<Rightarrow> int list \<Rightarrow> int \<Rightarrow> int list \<Rightarrow> search_state
      \<Rightarrow> (int list list \<times> int list list) option \<times> search_state"
  and each_from :: "int \<Rightarrow> nat \<Rightarrow> int list \<Rightarrow> nat \<Rightarrow> int \<Rightarrow> int list \<Rightarrow> search_state
      \<Rightarrow> search_state" where
  "calculate limit MAX_CALL_TIMES balances threshold partial s =
     (let s1 = s\<lparr>callTimes := callTimes s + 1\<rparr>;
          s2 = (if callTimes s1 = 1 then s1\<lparr>sizeOfBalances := length balances\<rparr> else s1);
          sizeOfPartial = int (length partial);
          sum = jsSum partial;
          s3 = (if sum = threshold \<and> sizeOfPartial \<le> limit
                then s2\<lparr>exactMatches := exactMatches s2 @ [partial],
                        hasFoundAnExactMatch := True\<rparr>
                else s2);
          s4 = (if sum > threshold \<and> sizeOfPartial \<le> limit
                then s3\<lparr>exceeded := exceeded s3 @ [partial]\<rparr>
                else s3)
      in if sum \<ge> threshold then (None, s4)
         else
           (let s5 = each_from limit MAX_CALL_TIMES balances 0 threshold partial s4
            in (if hasFoundAnExactMatch s5 \<or> hasFoundNoMatches s5
                     \<or> callTimes s5 = MAX_CALL_TIMES
                then Some (exactMatches s5, exceeded s5)
                else None, s5)))"
| "each_from limit MAX_CALL_TIMES [] idx threshold partial s = s"
| "each_from limit MAX_CALL_TIMES (b # rest) idx threshold partial s =
     (if hasFoundAnExactMatch s then s
      else
        (let s1 = (if int idx = int (sizeOfBalances s) - 1
                   then s\<lparr>hasFoundNoMatches := True\<rparr> else s);
             s2 = snd (calculate limit MAX_CALL_TIMES rest threshold (partial @ [b]) s1)
         in each_from limit MAX_CALL_TIMES rest (idx + 1) threshold partial s2))"

text \<open>
  For the proofs: the state in which \<open>calculate\<close> reaches its test \<^verbatim>\<open>sum >= threshold\<close>,
  that is, after the counter, the size of the first call's balances and the two arrays
  have been updated.  The lemma \<open>calculate_unfold\<close> below relates it to \<open>calculate\<close>.
\<close>

definition on_entry :: "int \<Rightarrow> int list \<Rightarrow> int \<Rightarrow> int list \<Rightarrow> search_state \<Rightarrow> search_state" where
  "on_entry limit balances threshold partial s =
     (let s1 = s\<lparr>callTimes := callTimes s + 1\<rparr>;
          s2 = (if callTimes s1 = 1 then s1\<lparr>sizeOfBalances := length balances\<rparr> else s1);
          s3 = (if jsSum partial = threshold \<and> int (length partial) \<le> limit
                then s2\<lparr>exactMatches := exactMatches s2 @ [partial],
                        hasFoundAnExactMatch := True\<rparr>
                else s2)
      in if jsSum partial > threshold \<and> int (length partial) \<le> limit
         then s3\<lparr>exceeded := exceeded s3 @ [partial]\<rparr>
         else s3)"

text \<open>
  For the proofs: what every call and every loop of the search preserves (the counter
  only grows, a flag once set stays set, and the recorded size of the balances is fixed
  after the first call), and what they do to the recorded exact matches.
\<close>

definition mono_step :: "search_state \<Rightarrow> search_state \<Rightarrow> bool" where
  "mono_step s s' \<longleftrightarrow>
     callTimes s \<le> callTimes s'
     \<and> (hasFoundNoMatches s \<longrightarrow> hasFoundNoMatches s')
     \<and> (hasFoundAnExactMatch s \<longrightarrow> hasFoundAnExactMatch s')
     \<and> (1 \<le> callTimes s \<longrightarrow> sizeOfBalances s' = sizeOfBalances s)"

definition once_step :: "search_state \<Rightarrow> search_state \<Rightarrow> bool" where
  "once_step s s' \<longleftrightarrow>
     (if hasFoundAnExactMatch s' then (\<exists>q. exactMatches s' = exactMatches s @ [q])
      else exactMatches s' = exactMatches s)"

text \<open>\<^verbatim>\<open>subsetSumWithLimit(limit, MAX_CALL_TIMES)(balances, threshold)\<close>: a fresh closure,
  called once with the default \<^verbatim>\<open>partial = []\<close>.\<close>

definition subsetSumWithLimit :: "int \<Rightarrow> nat \<Rightarrow> int list \<Rightarrow> int
    \<Rightarrow> (int list list \<times> int list list) option" where
  "subsetSumWithLimit limit MAX_CALL_TIMES balances threshold =
     fst (calculate limit MAX_CALL_TIMES balances threshold [] initial_state)"

definition DEFAULT_MAX_CALL_TIMES :: nat where
  "DEFAULT_MAX_CALL_TIMES = 100000"

section \<open>prepareInputs\<close>

text \<open>
  \<^verbatim>\<open>DEFAULT_SECURITY\<close> is imported from the configuration, which is not part of the
  sources at hand; the doc comment of \<^verbatim>\<open>prepareInputs\<close> gives it as \<^verbatim>\<open>[security= 2]\<close>.
\<close>

definition DEFAULT_SECURITY :: int where
  "DEFAULT_SECURITY = 2"

text \<open>
  \<^verbatim>\<open>findSetWithMinSize\<close>, the inner function of \<^verbatim>\<open>prepareInputs\<close>.  On an
  \<^verbatim>\<open>undefined\<close> result of \<^verbatim>\<open>minBy\<close> both \<^verbatim>\<open>includes\<close> and \<^verbatim>\<open>size\<close> behave as on
  the empty array.
\<close>

definition findSetWithMinSize :: "input list \<Rightarrow> int list list \<Rightarrow> int \<Rightarrow> int
    \<Rightarrow> error + (input list \<times> int)" where
  "findSetWithMinSize inputsWithUniqueBalances exceeded' threshold maxInputs =
     (let inputsWithMinSize = (case minBy exceeded' of None \<Rightarrow> [] | Some c \<Rightarrow> c);
          finalInputs = filter (\<lambda>inp. balance inp \<in> set inputsWithMinSize) inputsWithUniqueBalances;
          bal = jsSum (map balance finalInputs)
      in if bal \<le> threshold \<or> int (length inputsWithMinSize) > maxInputs
         then Inl SOMETHING_WENT_WRONG_DURING_INPUT_SELECTION
         else Inr (finalInputs, bal))"

text \<open>
  The body of the branch taken when the greedy selection exceeds the limit: the search
  over the unique balances, with the default \<^verbatim>\<open>MAX_CALL_TIMES\<close>.  Destructuring an
  \<^verbatim>\<open>undefined\<close> result of the search raises a \<^verbatim>\<open>TypeError\<close>.
\<close>

definition selectWithinLimit :: "input list \<Rightarrow> int \<Rightarrow> int \<Rightarrow> error + (input list \<times> int)" where
  "selectWithinLimit inputs threshold maxInputs =
     (let inputsWithUniqueBalances = uniqBy inputs
      in case subsetSumWithLimit maxInputs DEFAULT_MAX_CALL_TIMES
                (map balance inputsWithUniqueBalances) threshold of
           None \<Rightarrow> Inl TYPE_ERROR
         | Some (exactMatches', exceeded') \<Rightarrow>
             (case head exactMatches' of
                Some match \<Rightarrow>
                  (let inputsWithExactMatch =
                         filter (\<lambda>inp. balance inp \<in> set match) inputsWithUniqueBalances;
                       bal = jsSum (map balance inputsWithExactMatch)
                   in if bal \<noteq> threshold
                      then Inl SOMETHING_WENT_WRONG_DURING_INPUT_SELECTION
                      else Inr (inputsWithExactMatch, bal))
              | None \<Rightarrow>
                  (if exceeded' \<noteq> []
                   then findSetWithMinSize inputsWithUniqueBalances exceeded' threshold maxInputs
                   else Inl CANNOT_FIND_INPUTS_WITH_PROVIDED_LIMIT)))"

text \<open>
  The first revision: \<^verbatim>\<open>prepareInputs(addressData, threshold, maxInputs = 2, security)\<close>.
  The result is the pair of the fields \<open>inputs\<close> and \<open>balance\<close> of the returned object.
\<close>

definition prepareInputs :: "address_entry list \<Rightarrow> int \<Rightarrow> limit_arg \<Rightarrow> int
    \<Rightarrow> error + (input list \<times> int)" where
  "prepareInputs addressData threshold maxInputs_arg sec =
     (let maxInputs = (case maxInputs_arg of Undefined \<Rightarrow> Num 2 | v \<Rightarrow> v)
      in if jsSum (map balance addressData) < threshold then Inl INSUFFICIENT_BALANCE
         else if threshold = 0 then Inl INPUTS_THRESHOLD_CANNOT_BE_ZERO
         else
           (case maxInputs of
              Num m \<Rightarrow>
                (let inputs = filter (\<lambda>inp. balance inp > 0)
                                (transformAddressDataToInputs addressData sec)
                 in case greedy inputs threshold [] 0 of
                      Inl e \<Rightarrow> Inl e
                    | Inr (selectedInputsByOptimalValue, availableBalance) \<Rightarrow>
                        if m > 0 \<and> int (length selectedInputsByOptimalValue) > m
                        then selectWithinLimit inputs threshold m
                        else Inr (selectedInputsByOptimalValue, availableBalance))
            | _ \<Rightarrow> Inl INVALID_MAX_INPUTS_PROVIDED))"

text \<open>
  The second revision: \<^verbatim>\<open>prepareInputs(addressData, threshold, limit = 2, security)\<close>.  It
  throws on \<^verbatim>\<open>limit === 0\<close> and searches within the limit whenever \<^verbatim>\<open>isNumber(limit)\<close>.
\<close>

definition prepareInputs_rev2 :: "address_entry list \<Rightarrow> int \<Rightarrow> limit_arg \<Rightarrow> int
    \<Rightarrow> error + (input list \<times> int)" where
  "prepareInputs_rev2 addressData threshold limit_arg sec =
     (let limit = (case limit_arg of Undefined \<Rightarrow> Num 2 | v \<Rightarrow> v)
      in if jsSum (map balance addressData) < threshold then Inl INSUFFICIENT_BALANCE
         else if threshold = 0 then Inl INPUTS_THRESHOLD_CANNOT_BE_ZERO
         else if limit = Num 0 then Inl INPUTS_LIMIT_CANNOT_BE_ZERO
         else
           (let inputs = filter (\<lambda>inp. balance inp > 0)
                           (transformAddressDataToInputs addressData sec)
            in case greedy inputs threshold [] 0 of
                 Inl e \<Rightarrow> Inl e
               | Inr (selectedInputsByOptimalValue, availableBalance) \<Rightarrow>
                   (case limit of
                      Num l \<Rightarrow>
                        if int (length selectedInputsByOptimalValue) > l
                        then selectWithinLimit inputs threshold l
                        else Inr (selectedInputsByOptimalValue, availableBalance)
                    | _ \<Rightarrow> Inr (selectedInputsByOptimalValue, availableBalance))))"

section \<open>getInputs\<close>

text \<open>
  A normalised transaction, as far as \<^verbatim>\<open>getInputs\<close> reads it: the first revision drops the
  transactions whose \<^verbatim>\<open>transferValue\<close> is \<open>0\<close>.
\<close>

record transfer =
  tx_address :: string
  transferValue :: int
  bundleHash :: string
  persistence :: bool

text \<open>
  The filters are imported from \<^verbatim>\<open>./addresses\<close> and \<^verbatim>\<open>./transfers\<close>, which are not part of
  the sources at hand, so \<^verbatim>\<open>getInputs\<close> takes them as arguments (the asynchronous ones
  already applied to the provider; a rejected promise is an \<open>Inl\<close>).  The promise chain
  is the sequence of its \<^verbatim>\<open>then\<close> callbacks; a throw in a callback and a rejection both
  reject the promise that \<^verbatim>\<open>getInputs\<close> returns.
\<close>

definition getInputs ::
  "(transfer list \<Rightarrow> address_entry list \<Rightarrow> error + transfer list)
    \<Rightarrow> (address_entry list \<Rightarrow> transfer list \<Rightarrow> address_entry list)
    \<Rightarrow> (address_entry list \<Rightarrow> transfer list \<Rightarrow> address_entry list)
    \<Rightarrow> (address_entry list \<Rightarrow> transfer list \<Rightarrow> error + address_entry list)
    \<Rightarrow> address_entry list \<Rightarrow> transfer list \<Rightarrow> int \<Rightarrow> limit_arg
    \<Rightarrow> error + (input list \<times> int)" where
  "getInputs filterNonFundedPendingTransactions omitAddressDataWithIncomingTransactions
       filterAddressDataWithPendingOutgoingTransactions pickUnspentAddressData
       addressData normalisedTransactionsList threshold maxInputs_arg =
     (let maxInputs = (case maxInputs_arg of Undefined \<Rightarrow> Num 0 | v \<Rightarrow> v)
      in if jsSum (map balance addressData) < threshold then Inl INSUFFICIENT_BALANCE
         else if (case maxInputs of Num m \<Rightarrow> False | _ \<Rightarrow> True)
         then Inl INVALID_MAX_INPUTS_PROVIDED
         else
           (case filterNonFundedPendingTransactions
                   (filter (\<lambda>tx. transferValue tx \<noteq> 0) normalisedTransactionsList)
                   addressData of
              Inl e \<Rightarrow> Inl e
            | Inr pendingValueTransactions \<Rightarrow>
                (let addressDataForInputs =
                       omitAddressDataWithIncomingTransactions addressData pendingValueTransactions
                 in if jsSum (map balance addressDataForInputs) < threshold
                    then Inl INCOMING_TRANSFERS
                    else
                      (let addressDataForInputs2 =
                             filterAddressDataWithPendingOutgoingTransactions
                               addressDataForInputs normalisedTransactionsList
                       in if jsSum (map balance addressDataForInputs2) < threshold
                          then Inl ADDRESS_HAS_PENDING_TRANSFERS
                          else
                            (case pickUnspentAddressData addressDataForInputs2
                                    normalisedTransactionsList of
                               Inl e \<Rightarrow> Inl e
                             | Inr unspentAddressData \<Rightarrow>
                                 if jsSum (map balance unspentAddressData) < threshold
                                 then Inl FUNDS_AT_SPENT_ADDRESSES
                                 else prepareInputs unspentAddressData threshold maxInputs
                                        DEFAULT_SECURITY)))))"

text \<open>
  The second revision, over transactions of any shape: it builds the bundles, keeps the
  funded ones and flattens them (\<^verbatim>\<open>flatMap(fundedBundles, (bundle) => bundle)\<close>).  Its
  \<^verbatim>\<open>maxInputs\<close> defaults to \<^verbatim>\<open>null\<close>; a \<open>limit_arg\<close> is \<^verbatim>\<open>null\<close> or a number there,
  so the check \<^verbatim>\<open>!isNull(maxInputs) && !isNumber(maxInputs)\<close> never rejects.
\<close>

definition getInputs_rev2 ::
  "('tx list \<Rightarrow> 'tx list list)
    \<Rightarrow> ('tx list list \<Rightarrow> error + 'tx list list)
    \<Rightarrow> (address_entry list \<Rightarrow> 'tx list \<Rightarrow> address_entry list)
    \<Rightarrow> (address_entry list \<Rightarrow> 'tx list \<Rightarrow> address_entry list)
    \<Rightarrow> (address_entry list \<Rightarrow> 'tx list \<Rightarrow> error + address_entry list)
    \<Rightarrow> address_entry list \<Rightarrow> 'tx list \<Rightarrow> int \<Rightarrow> limit_arg
    \<Rightarrow> error + (input list \<times> int)" where
  "getInputs_rev2 constructBundlesFromTransactions filterNonFundedBundles
       filterAddressDataWithPendingIncomingTransactions
       filterAddressDataWithPendingOutgoingTransactions filterSpentAddressData
       addressData transactions threshold maxInputs_arg =
     (let maxInputs = (case maxInputs_arg of Undefined \<Rightarrow> Null | v \<Rightarrow> v)
      in if jsSum (map balance addressData) < threshold then Inl INSUFFICIENT_BALANCE
         else
           (case filterNonFundedBundles (constructBundlesFromTransactions transactions) of
              Inl e \<Rightarrow> Inl e
            | Inr fundedBundles \<Rightarrow>
                (let addressDataForInputs =
                       filterAddressDataWithPendingIncomingTransactions addressData
                         (concat fundedBundles)
                 in if jsSum (map balance addressDataForInputs) < threshold
                    then Inl INCOMING_TRANSFERS
                    else
                      (let addressDataForInputs2 =
                             filterAddressDataWithPendingOutgoingTransactions
                               addressDataForInputs transactions
                       in if jsSum (map balance addressDataForInputs2) < threshold
                          then Inl ADDRESS_HAS_PENDING_TRANSFERS
                          else
                            (case filterSpentAddressData addressDataForInputs2 transactions of
                               Inl e \<Rightarrow> Inl e
                             | Inr unspentAddressData \<Rightarrow>
                                 if jsSum (map balance unspentAddressData) < threshold
                                 then Inl FUNDS_AT_SPENT_ADDRESSES
                                 else prepareInputs_rev2 unspentAddressData threshold maxInputs
                                        DEFAULT_SECURITY)))))"

subsection \<open>Example collaborators\<close>

text \<open>
  Simple filters to run \<open>getInputs\<close> on concrete data: the pending transactions are the
  unconfirmed ones; an address has an incoming transfer when a pending transaction credits
  it, an outgoing one when an unconfirmed transaction debits it; an address is spent when
  one of its two flags says so.
\<close>

definition example_filterNonFunded :: "transfer list \<Rightarrow> address_entry list \<Rightarrow> error + transfer list" where
  "example_filterNonFunded txs addressData = Inr (filter (\<lambda>tx. \<not> persistence tx) txs)"

definition example_omitIncoming :: "address_entry list \<Rightarrow> transfer list \<Rightarrow> address_entry list" where
  "example_omitIncoming addressData pending =
     filter (\<lambda>a. address a \<notin> set (map tx_address (filter (\<lambda>tx. transferValue tx > 0) pending)))
       addressData"

definition example_filterOutgoing :: "address_entry list \<Rightarrow> transfer list \<Rightarrow> address_entry list" where
  "example_filterOutgoing addressData txs =
     filter (\<lambda>a. address a \<notin> set (map tx_address
               (filter (\<lambda>tx. \<not> persistence tx \<and> transferValue tx < 0) txs)))
       addressData"

definition example_pickUnspent :: "address_entry list \<Rightarrow> transfer list \<Rightarrow> error + address_entry list" where
  "example_pickUnspent addressData txs =
     Inr (filter (\<lambda>a. \<not> spent_local a \<and> \<not> spent_remote a) addressData)"

definition example_constructBundles :: "transfer list \<Rightarrow> transfer list list" where
  "example_constructBundles txs = map (\<lambda>tx. [tx]) (filter (\<lambda>tx. \<not> persistence tx) txs)"

definition example_filterNonFundedBundles :: "transfer list list \<Rightarrow> error + transfer list list" where
  "example_filterNonFundedBundles bundles = Inr bundles"

text \<open>Four addresses of balance 10: \<open>A\<close> awaits an incoming transfer, \<open>B\<close> has a pending
  outgoing transfer, \<open>C\<close> is spent, \<open>D\<close> is free.\<close>

definition example_addressData :: "address_entry list" where
  "example_addressData =
     [\<lparr>address = ''A'', balance = 10, index = 0, spent_local = False, spent_remote = False\<rparr>,
      \<lparr>address = ''B'', balance = 10, index = 1, spent_local = False, spent_remote = False\<rparr>,
      \<lparr>address = ''C'', balance = 10, index = 2, spent_local = False, spent_remote = True\<rparr>,
      \<lparr>address = ''D'', balance = 10, index = 3, spent_local = False, spent_remote = False\<rparr>]"

definition example_transactions :: "transfer list" where
  "example_transactions =
     [\<lparr>tx_address = ''A'', transferValue = 5, bundleHash = ''X'', persistence = False\<rparr>,
      \<lparr>tx_address = ''B'', transferValue = - 3, bundleHash = ''Y'', persistence = False\<rparr>,
      \<lparr>tx_address = ''D'', transferValue = 0, bundleHash = ''Z'', persistence = False\<rparr>]"

section \<open>The node synchronisation check\<close>

text \<open>The result of \<^verbatim>\<open>getNodeInfo\<close>, as far as the check reads it.  The two indices
  are optional: the replies in the repository's tests leave them out in three of the four
  scenarios.\<close>

record node_info =
  latestMilestone :: string
  latestMilestoneIndex :: "int option"
  latestSolidSubtangleMilestone :: string
  latestSolidSubtangleMilestoneIndex :: "int option"

text \<open>
  Modelled from the spec: \<^verbatim>\<open>EMPTY_HASH_TRYTES\<close> is imported from \<^verbatim>\<open>libs/iota/utils\<close>, which
  is not part of the sources at hand.  The spec calls it the all-9s (empty) sentinel; a hash
  has 81 characters.
\<close>

definition EMPTY_HASH_TRYTES :: string where
  "EMPTY_HASH_TRYTES = replicate 81 (CHR ''9'')"

text \<open>Modelled from the spec: the bound of five minutes on the age of the sampled
  transaction, in milliseconds.\<close>

definition FIVE_MINUTES :: int where
  "FIVE_MINUTES = 5 * 60 * 1000"

text \<open>
  Modelled from the spec: \<^verbatim>\<open>isNodeSynced\<close> lives in \<^verbatim>\<open>libs/iota/extendedApi\<close>, of which only
  the tests (\<^verbatim>\<open>extendedApi.spec.js\<close>) are part of the sources at hand.  The definition
  follows the algorithm of the spec (section 4.4), except where the tests pin the behaviour:
  \<^enum> both hashes equal and equal to the sentinel: fail with the not-synced signal (spec,
    and the test with both hashes empty);
  \<^enum> the hashes differ: fail with the same signal (spec, and the test with an empty latest
    milestone), unless the solid milestone index is exactly one behind the latest one and
    the latest milestone is not the sentinel; then the check goes on to the timestamp (the
    test with the hashes 81 times \<open>U\<close> and 81 times \<open>A\<close> and the indices 426550 and 426549
    expects \<open>true\<close> or \<open>false\<close>);
  \<^enum> the hashes agree and are not the sentinel: with
    \<open>indexDiff = latestMilestoneIndex - latestSolidSubtangleMilestoneIndex\<close>, \<open>indexDiff > 1\<close>
    fails and \<open>indexDiff \<in> {0, 1}\<close> goes on to the timestamp (spec); so does a reply without
    indices (the test with both hashes 81 times \<open>U\<close>);
  \<^enum> the timestamp: the check resolves to whether \<open>now - timestamp < 5 minutes\<close> for the
    timestamp of the sampled transaction.

  The times are in milliseconds.  Neither the spec nor the tests give an outcome for a
  negative \<open>indexDiff\<close>; the model returns \<open>None\<close> there.  A rejection is an \<open>Inl\<close>, a
  resolved value an \<open>Inr\<close>.
\<close>

definition one_behind :: "node_info \<Rightarrow> bool" where
  "one_behind info =
     (case (latestMilestoneIndex info, latestSolidSubtangleMilestoneIndex info) of
        (Some a, Some b) \<Rightarrow> a - 1 = b
      | _ \<Rightarrow> False)"

definition isSynced :: "node_info \<Rightarrow> int \<Rightarrow> int \<Rightarrow> (error + bool) option" where
  "isSynced info timestamp now =
     (if latestMilestone info = latestSolidSubtangleMilestone info
          \<and> latestMilestone info = EMPTY_HASH_TRYTES
      then Some (Inl NODE_NOT_SYNCED)
      else if latestMilestone info \<noteq> latestSolidSubtangleMilestone info
      then (if one_behind info \<and> latestMilestone info \<noteq> EMPTY_HASH_TRYTES
            then Some (Inr (now - timestamp < FIVE_MINUTES))
            else Some (Inl NODE_NOT_SYNCED))
      else
        (case (latestMilestoneIndex info, latestSolidSubtangleMilestoneIndex info) of
           (Some a, Some b) \<Rightarrow>
             (let indexDiff = a - b
              in if indexDiff > 1 then Some (Inl NODE_NOT_SYNCED)
                 else if indexDiff = 0 \<or> indexDiff = 1
                 then Some (Inr (now - timestamp < FIVE_MINUTES))
                 else None)
         | _ \<Rightarrow> Some (Inr (now - timestamp < FIVE_MINUTES))))"

section \<open>Facts about the numbers\<close>

lemma round53_exact: "\<bar>x\<bar> \<le> MAX_EXACT \<Longrightarrow> round53 x = x"
  by (simp add: round53_def)

lemma jsSum_Nil [simp]: "jsSum [] = 0"
  by (simp add: jsSum_def)

lemma jsSum_snoc: "jsSum (xs @ [x]) = jsAdd (jsSum xs) x"
  by (simp add: jsSum_def)

lemma foldl_jsAdd_exact:
  "\<forall>x\<in>set xs. 0 \<le> x \<Longrightarrow> 0 \<le> a \<Longrightarrow> a + sum_list xs \<le> MAX_EXACT \<Longrightarrow>
   foldl jsAdd a xs = a + sum_list xs"
proof (induction xs arbitrary: a)
  case Nil
  then show ?case by simp
next
  case (Cons x xs)
  have nn: "0 \<le> x" "0 \<le> sum_list xs"
    using Cons.prems(1) by (auto intro: sum_list_nonneg)
  then have "\<bar>a + x\<bar> \<le> MAX_EXACT" using Cons.prems(2,3) by simp
  then have "jsAdd a x = a + x" by (simp add: jsAdd_def round53_exact)
  moreover have "foldl jsAdd (a + x) xs = (a + x) + sum_list xs"
    using Cons.prems nn by (intro Cons.IH) simp_all
  ultimately show ?case by simp
qed

lemma jsSum_exact:
  "\<forall>x\<in>set xs. 0 \<le> x \<Longrightarrow> sum_list xs \<le> MAX_EXACT \<Longrightarrow> jsSum xs = sum_list xs"
  using foldl_jsAdd_exact[of xs 0] by (simp add: jsSum_def)

section \<open>Facts about the search\<close>

declare calculate.simps [simp del]

lemma calculate_unfold:
  "calculate l m bs t p s =
     (if t \<le> jsSum p then (None, on_entry l bs t p s)
      else (if hasFoundAnExactMatch (each_from l m bs 0 t p (on_entry l bs t p s))
               \<or> hasFoundNoMatches (each_from l m bs 0 t p (on_entry l bs t p s))
               \<or> callTimes (each_from l m bs 0 t p (on_entry l bs t p s)) = m
            then Some (exactMatches (each_from l m bs 0 t p (on_entry l bs t p s)),
                       exceeded (each_from l m bs 0 t p (on_entry l bs t p s)))
            else None,
            each_from l m bs 0 t p (on_entry l bs t p s)))"
  by (simp add: calculate.simps on_entry_def Let_def)

lemma snd_calculate:
  "snd (calculate l m bs t p s) =
     (if t \<le> jsSum p then on_entry l bs t p s
      else each_from l m bs 0 t p (on_entry l bs t p s))"
  by (simp add: calculate_unfold)

lemma on_entry_fields [simp]:
  "callTimes (on_entry l bs t p s) = callTimes s + 1"
  "sizeOfBalances (on_entry l bs t p s) = (if callTimes s = 0 then length bs else sizeOfBalances s)"
  "hasFoundNoMatches (on_entry l bs t p s) = hasFoundNoMatches s"
  "hasFoundAnExactMatch (on_entry l bs t p s)
     = (hasFoundAnExactMatch s \<or> (jsSum p = t \<and> int (length p) \<le> l))"
  "exactMatches (on_entry l bs t p s)
     = (if jsSum p = t \<and> int (length p) \<le> l then exactMatches s @ [p] else exactMatches s)"
  "exceeded (on_entry l bs t p s)
     = (if t < jsSum p \<and> int (length p) \<le> l then exceeded s @ [p] else exceeded s)"
  by (auto simp: on_entry_def Let_def)

lemma each_from_found [simp]:
  "hasFoundAnExactMatch s \<Longrightarrow> each_from l m bs i t p s = s"
  by (cases bs) simp_all

declare each_from.simps(2) [simp del]

lemma each_from_Cons:
  "\<not> hasFoundAnExactMatch s \<Longrightarrow>
   each_from l m (b # rest) i t p s =
     each_from l m rest (Suc i) t p
       (snd (calculate l m rest t (p @ [b])
          (if int i = int (sizeOfBalances s) - 1 then s\<lparr>hasFoundNoMatches := True\<rparr> else s)))"
  by (simp add: each_from.simps(2) Let_def)

lemma search_mono:
  "(\<forall>p s. mono_step s (snd (calculate l m bs t p s)))
   \<and> (\<forall>p s i. mono_step s (each_from l m bs i t p s))"
proof (induction bs)
  case Nil
  show ?case by (simp add: snd_calculate mono_step_def)
next
  case (Cons b rest)
  have each: "mono_step s (each_from l m (b # rest) i t p s)" for p s i
  proof (cases "hasFoundAnExactMatch s")
    case True
    then show ?thesis by (simp add: mono_step_def)
  next
    case False
    define s1 where "s1 = (if int i = int (sizeOfBalances s) - 1 then s\<lparr>hasFoundNoMatches := True\<rparr> else s)"
    define s2 where "s2 = snd (calculate l m rest t (p @ [b]) s1)"
    have st: "each_from l m (b # rest) i t p s = each_from l m rest (Suc i) t p s2"
      using False by (simp add: each_from_Cons s1_def s2_def)
    have a: "mono_step s s1" by (simp add: mono_step_def s1_def)
    have b: "mono_step s1 s2" using Cons.IH unfolding s2_def by blast
    have c: "mono_step s2 (each_from l m rest (Suc i) t p s2)" using Cons.IH by blast
    show ?thesis
      using a b c unfolding st mono_step_def by auto
  qed
  have calc: "mono_step s (snd (calculate l m (b # rest) t p s))" for p s
  proof -
    have a: "mono_step s (on_entry l (b # rest) t p s)" by (simp add: mono_step_def)
    have b: "mono_step (on_entry l (b # rest) t p s)
               (each_from l m (b # rest) 0 t p (on_entry l (b # rest) t p s))"
      by (rule each)
    show ?thesis
      using a b unfolding snd_calculate mono_step_def by auto
  qed
  show ?case using each calc by blast
qed

lemma mono_calculate: "mono_step s (snd (calculate l m bs t p s))"
  using search_mono by blast

lemma mono_each_from: "mono_step s (each_from l m bs i t p s)"
  using search_mono by blast

text \<open>The state the search leaves does not depend on MAX_CALL_TIMES.\<close>

lemma search_independent_of_max:
  "(\<forall>p s. snd (calculate l m bs t p s) = snd (calculate l m' bs t p s))
   \<and> (\<forall>p s i. each_from l m bs i t p s = each_from l m' bs i t p s)"
proof (induction bs)
  case Nil
  show ?case by (simp add: snd_calculate)
next
  case (Cons b rest)
  have each: "each_from l m (b # rest) i t p s = each_from l m' (b # rest) i t p s" for p s i
  proof (cases "hasFoundAnExactMatch s")
    case True
    then show ?thesis by simp
  next
    case False
    define s1 where "s1 = (if int i = int (sizeOfBalances s) - 1 then s\<lparr>hasFoundNoMatches := True\<rparr> else s)"
    have "snd (calculate l m rest t (p @ [b]) s1) = snd (calculate l m' rest t (p @ [b]) s1)"
      using Cons.IH by blast
    moreover have "each_from l m rest (Suc i) t p s' = each_from l m' rest (Suc i) t p s'" for s'
      using Cons.IH by blast
    ultimately show ?thesis
      using False by (simp add: each_from_Cons s1_def)
  qed
  then show ?case by (simp add: snd_calculate)
qed

text \<open>At most one exact match is recorded, and the flag tells whether one was.\<close>

lemma search_once:
  "(\<forall>p s. \<not> hasFoundAnExactMatch s \<longrightarrow> once_step s (snd (calculate l m bs t p s)))
   \<and> (\<forall>p s i. \<not> hasFoundAnExactMatch s \<longrightarrow> once_step s (each_from l m bs i t p s))"
proof (induction bs)
  case Nil
  show ?case by (simp add: snd_calculate once_step_def)
next
  case (Cons b rest)
  have each: "once_step s (each_from l m (b # rest) i t p s)"
    if nf: "\<not> hasFoundAnExactMatch s" for p s i
  proof -
    define s1 where "s1 = (if int i = int (sizeOfBalances s) - 1 then s\<lparr>hasFoundNoMatches := True\<rparr> else s)"
    define s2 where "s2 = snd (calculate l m rest t (p @ [b]) s1)"
    have st: "each_from l m (b # rest) i t p s = each_from l m rest (Suc i) t p s2"
      using nf by (simp add: each_from_Cons s1_def s2_def)
    have nf1: "\<not> hasFoundAnExactMatch s1" using nf by (simp add: s1_def)
    have a: "once_step s1 s2" using Cons.IH nf1 unfolding s2_def by blast
    have e1: "exactMatches s1 = exactMatches s" by (simp add: s1_def)
    show ?thesis
    proof (cases "hasFoundAnExactMatch s2")
      case True
      then have "each_from l m rest (Suc i) t p s2 = s2" by simp
      then show ?thesis using a e1 True unfolding st by (simp add: once_step_def)
    next
      case False
      then have "once_step s2 (each_from l m rest (Suc i) t p s2)" using Cons.IH by blast
      moreover have "exactMatches s2 = exactMatches s" using a False e1 by (simp add: once_step_def)
      ultimately show ?thesis unfolding st by (auto simp: once_step_def split: if_splits)
    qed
  qed
  have calc: "once_step s (snd (calculate l m (b # rest) t p s))"
    if nf: "\<not> hasFoundAnExactMatch s" for p s
  proof (cases "t \<le> jsSum p")
    case True
    then show ?thesis using nf by (simp add: snd_calculate once_step_def)
  next
    case False
    then have nf': "\<not> hasFoundAnExactMatch (on_entry l (b # rest) t p s)"
      and e: "exactMatches (on_entry l (b # rest) t p s) = exactMatches s"
      using nf by simp_all
    have "once_step (on_entry l (b # rest) t p s)
            (each_from l m (b # rest) 0 t p (on_entry l (b # rest) t p s))"
      by (rule each[OF nf'])
    then show ?thesis
      using False unfolding snd_calculate once_step_def e by simp
  qed
  show ?case using each calc by blast
qed

lemma exactMatches_at_most_one:
  "length (exactMatches (snd (calculate l m bs t p initial_state))) \<le> 1"
proof -
  have "once_step initial_state (snd (calculate l m bs t p initial_state))"
    using search_once by (simp add: initial_state_def)
  then show ?thesis
    by (auto simp: once_step_def initial_state_def split: if_splits)
qed

text \<open>The loop over the balances of the first call leaves one of the two flags set.\<close>

lemma each_from_sets_flag:
  "rest \<noteq> [] \<Longrightarrow> 1 \<le> callTimes s \<Longrightarrow> sizeOfBalances s = i + length rest \<Longrightarrow>
   hasFoundAnExactMatch (each_from l m rest i t p s) \<or> hasFoundNoMatches (each_from l m rest i t p s)"
proof (induction rest arbitrary: i s)
  case Nil
  then show ?case by simp
next
  case (Cons b r)
  show ?case
  proof (cases "hasFoundAnExactMatch s")
    case True
    then show ?thesis by simp
  next
    case False
    define s1 where "s1 = (if int i = int (sizeOfBalances s) - 1 then s\<lparr>hasFoundNoMatches := True\<rparr> else s)"
    define s2 where "s2 = snd (calculate l m r t (p @ [b]) s1)"
    have m12: "mono_step s1 s2" unfolding s2_def by (rule mono_calculate)
    have st: "each_from l m (b # r) i t p s = each_from l m r (Suc i) t p s2"
      using False by (simp add: each_from_Cons s1_def s2_def)
    have c1: "1 \<le> callTimes s1" and z1: "sizeOfBalances s1 = sizeOfBalances s"
      using Cons.prems by (simp_all add: s1_def)
    show ?thesis
    proof (cases r)
      case Nil
      then have "hasFoundNoMatches s1" using Cons.prems by (simp add: s1_def)
      then have "hasFoundNoMatches s2" using m12 by (simp add: mono_step_def)
      then show ?thesis unfolding st using Nil by simp
    next
      case (Cons c r')
      then have "r \<noteq> []" by simp
      moreover have "1 \<le> callTimes s2" "sizeOfBalances s2 = Suc i + length r"
        using m12 c1 z1 Cons.prems by (auto simp: mono_step_def)
      ultimately show ?thesis unfolding st by (rule Cons.IH)
    qed
  qed
qed

lemma calculate_defined:
  assumes "bs \<noteq> []" "0 < t"
  shows "fst (calculate l m bs t [] initial_state)
     = Some (exactMatches (snd (calculate l m bs t [] initial_state)),
             exceeded (snd (calculate l m bs t [] initial_state)))"
proof -
  let ?s = "on_entry l bs t [] initial_state"
  have "hasFoundAnExactMatch (each_from l m bs 0 t [] ?s) \<or> hasFoundNoMatches (each_from l m bs 0 t [] ?s)"
    using assms by (intro each_from_sets_flag) (simp_all add: initial_state_def)
  then show ?thesis using assms by (auto simp: calculate_unfold)
qed

lemma calculate_empty:
  "fst (calculate l DEFAULT_MAX_CALL_TIMES [] t [] initial_state) = None"
  by (simp add: calculate_unfold initial_state_def DEFAULT_MAX_CALL_TIMES_def)

section \<open>Facts about the greedy pass\<close>

declare greedy.simps [simp del]

lemma head_eq_Some: "head xs = Some x \<longleftrightarrow> (\<exists>rest. xs = x # rest)"
  by (cases xs) auto

lemma head_eq_None: "head xs = None \<longleftrightarrow> xs = []"
  by (cases xs) auto

text \<open>The head of a stable sort is the first element of least key.\<close>

lemma sort_key_head:
  "xs \<noteq> [] \<Longrightarrow>
   \<exists>x pre post rest. sort_key f xs = x # rest \<and> xs = pre @ x # post
     \<and> (\<forall>y\<in>set pre. f x < f y) \<and> (\<forall>y\<in>set post. f x \<le> f y)"
proof (induction xs)
  case Nil
  then show ?case by simp
next
  case (Cons a xs)
  show ?case
  proof (cases "xs = []")
    case True
    then show ?thesis
      by (intro exI[of _ a] exI[of _ "[]"]) simp
  next
    case False
    from Cons.IH[OF False] obtain x pre post rest where
      s: "sort_key f xs = x # rest" and d: "xs = pre @ x # post"
      and lt: "\<forall>y\<in>set pre. f x < f y" and le: "\<forall>y\<in>set post. f x \<le> f y"
      by blast
    show ?thesis
    proof (cases "f a \<le> f x")
      case True
      have "sort_key f (a # xs) = a # x # rest" using s True by simp
      moreover have "\<forall>y\<in>set xs. f a \<le> f y" using d lt le True by fastforce
      ultimately have "sort_key f (a # xs) = a # (x # rest) \<and> a # xs = [] @ a # xs
          \<and> (\<forall>y\<in>set []. f a < f y) \<and> (\<forall>y\<in>set xs. f a \<le> f y)"
        by simp
      then show ?thesis by blast
    next
      case False
      have "sort_key f (a # xs) = x # insort_key f a rest" using s False by simp
      moreover have "a # xs = (a # pre) @ x # post" using d by simp
      moreover have "\<forall>y\<in>set (a # pre). f x < f y" using lt False by auto
      ultimately show ?thesis using le by blast
    qed
  qed
qed

lemma sort_key_Nil_iff: "sort_key f xs = [] \<longleftrightarrow> xs = []"
  by (metis length_sort list.size(3) length_0_conv)

lemma greedy_done: "\<not> avail < t \<Longrightarrow> greedy inputs t sel avail = Inr (sel, avail)"
  by (simp add: greedy.simps)

lemma greedy_stuck:
  "avail < t \<Longrightarrow> differenceBy inputs sel = [] \<Longrightarrow> greedy inputs t sel avail = Inl TYPE_ERROR"
  by (simp add: greedy.simps sortInputsByOptimalValue_def)

lemma greedy_pick:
  assumes "avail < t" "differenceBy inputs sel \<noteq> []"
  shows "\<exists>x pre post. differenceBy inputs sel = pre @ x # post
     \<and> (\<forall>y\<in>set pre. \<bar>jsSub (jsSub t avail) (balance x)\<bar> < \<bar>jsSub (jsSub t avail) (balance y)\<bar>)
     \<and> (\<forall>y\<in>set post. \<bar>jsSub (jsSub t avail) (balance x)\<bar> \<le> \<bar>jsSub (jsSub t avail) (balance y)\<bar>)
     \<and> head (sortInputsByOptimalValue (differenceBy inputs sel) (jsSub t avail)) = Some x
     \<and> greedy inputs t sel avail = greedy inputs t (sel @ [x]) (jsAdd avail (balance x))"
proof -
  from sort_key_head[OF assms(2), of "\<lambda>a. \<bar>jsSub (jsSub t avail) (balance a)\<bar>"]
  obtain x pre post rest where
    s: "sort_key (\<lambda>a. \<bar>jsSub (jsSub t avail) (balance a)\<bar>) (differenceBy inputs sel) = x # rest"
    and d: "differenceBy inputs sel = pre @ x # post"
    and lt: "\<forall>y\<in>set pre. \<bar>jsSub (jsSub t avail) (balance x)\<bar> < \<bar>jsSub (jsSub t avail) (balance y)\<bar>"
    and le: "\<forall>y\<in>set post. \<bar>jsSub (jsSub t avail) (balance x)\<bar> \<le> \<bar>jsSub (jsSub t avail) (balance y)\<bar>"
    by blast
  have h: "head (sortInputsByOptimalValue (differenceBy inputs sel) (jsSub t avail)) = Some x"
    using s by (simp add: sortInputsByOptimalValue_def)
  have "greedy inputs t sel avail = greedy inputs t (sel @ [x]) (jsAdd avail (balance x))"
    using assms(1) h by (subst greedy.simps) simp
  with d lt le h show ?thesis by blast
qed

lemma greedy_cases:
  obtains (finished) "\<not> avail < t" "greedy inputs t sel avail = Inr (sel, avail)"
  | (stuck) "avail < t" "differenceBy inputs sel = []" "greedy inputs t sel avail = Inl TYPE_ERROR"
  | (pick) x where "avail < t" "x \<in> set (differenceBy inputs sel)"
      "head (sortInputsByOptimalValue (differenceBy inputs sel) (jsSub t avail)) = Some x"
      "greedy inputs t sel avail = greedy inputs t (sel @ [x]) (jsAdd avail (balance x))"
proof (cases "avail < t")
  case False
  then show ?thesis using finished greedy_done by blast
next
  case True
  show ?thesis
  proof (cases "differenceBy inputs sel = []")
    case True
    then show ?thesis using stuck greedy_stuck \<open>avail < t\<close> by blast
  next
    case False
    from greedy_pick[OF True False] obtain x pre post where
      "differenceBy inputs sel = pre @ x # post"
      "head (sortInputsByOptimalValue (differenceBy inputs sel) (jsSub t avail)) = Some x"
      "greedy inputs t sel avail = greedy inputs t (sel @ [x]) (jsAdd avail (balance x))"
      by blast
    then show ?thesis using pick[of x] True by simp
  qed
qed

lemma greedy_sum:
  "greedy inputs t sel avail = Inr (sel', avail') \<Longrightarrow> avail = jsSum (map balance sel) \<Longrightarrow>
   avail' = jsSum (map balance sel') \<and> t \<le> avail'"
proof (induction inputs t sel avail rule: greedy.induct)
  case (1 inputs t sel avail)
  show ?case
  proof (cases inputs t sel avail rule: greedy_cases)
    case finished
    then show ?thesis using 1 by auto
  next
    case stuck
    then show ?thesis using 1 by simp
  next
    case (pick x)
    show ?thesis
      by (rule "1.IH"[OF pick(1) pick(3)]) (use pick "1.prems" in \<open>simp_all add: jsSum_snoc\<close>)
  qed
qed

lemma greedy_distinct:
  "greedy inputs t sel avail = Inr (sel', avail') \<Longrightarrow>
   distinct (map address sel) \<Longrightarrow> set sel \<subseteq> set inputs \<Longrightarrow>
   distinct (map address sel') \<and> set sel' \<subseteq> set inputs"
proof (induction inputs t sel avail rule: greedy.induct)
  case (1 inputs t sel avail)
  show ?case
  proof (cases inputs t sel avail rule: greedy_cases)
    case finished
    then show ?thesis using 1 by auto
  next
    case stuck
    then show ?thesis using 1 by simp
  next
    case (pick x)
    from pick(2) have "x \<in> set inputs" "address x \<notin> address ` set sel"
      by (auto simp: differenceBy_def)
    then show ?thesis
      by (intro "1.IH"[OF pick(1) pick(3)]) (use pick "1.prems" in auto)
  qed
qed


text \<open>With pairwise distinct addresses the candidates never run out before the
  threshold is reached.\<close>

lemma sum_filter_address:
  "distinct (map address xs) \<Longrightarrow> x \<in> set xs \<Longrightarrow>
   sum_list (map balance (filter (\<lambda>y. address y \<noteq> address x) xs)) + balance x
     = sum_list (map balance xs)"
proof (induction xs)
  case Nil
  then show ?case by simp
next
  case (Cons a xs)
  show ?case
  proof (cases "x = a")
    case True
    have "address a \<notin> address ` set xs" using Cons.prems(1) by simp
    then have "\<forall>y\<in>set xs. address y \<noteq> address x" using True by (metis image_eqI)
    then have "filter (\<lambda>y. address y \<noteq> address x) xs = xs"
      by (intro filter_True)
    then show ?thesis using True by simp
  next
    case False
    then have "x \<in> set xs" using Cons.prems by simp
    moreover have "address a \<noteq> address x" using Cons.prems(1) \<open>x \<in> set xs\<close> by auto
    ultimately show ?thesis using Cons by simp
  qed
qed

lemma greedy_succeeds:
  "distinct (map address inputs) \<Longrightarrow> \<forall>x\<in>set inputs. 0 \<le> balance x \<Longrightarrow>
   sum_list (map balance inputs) \<le> MAX_EXACT \<Longrightarrow> t \<le> sum_list (map balance inputs) \<Longrightarrow>
   0 \<le> avail \<Longrightarrow>
   avail + sum_list (map balance (differenceBy inputs sel)) = sum_list (map balance inputs) \<Longrightarrow>
   \<exists>r. greedy inputs t sel avail = Inr r"
proof (induction inputs t sel avail rule: greedy.induct)
  case (1 inputs t sel avail)
  show ?case
  proof (cases inputs t sel avail rule: greedy_cases)
    case finished
    then show ?thesis by simp
  next
    case stuck
    then show ?thesis using "1.prems" by simp
  next
    case (pick x)
    have dc: "distinct (map address (differenceBy inputs sel))"
      using "1.prems"(1) by (simp add: differenceBy_def distinct_map_filter)
    have "differenceBy inputs (sel @ [x])
        = filter (\<lambda>y. address y \<noteq> address x) (differenceBy inputs sel)"
      by (auto simp: differenceBy_def intro: filter_cong)
    then have split: "sum_list (map balance (differenceBy inputs (sel @ [x]))) + balance x
        = sum_list (map balance (differenceBy inputs sel))"
      using sum_filter_address[OF dc pick(2)] by simp
    have "x \<in> set inputs" using pick(2) by (simp add: differenceBy_def)
    then have bx: "0 \<le> balance x" using "1.prems"(2) by simp
    have "\<forall>y\<in>set (differenceBy inputs (sel @ [x])). 0 \<le> balance y"
      using "1.prems"(2) by (simp add: differenceBy_def)
    then have rest: "0 \<le> sum_list (map balance (differenceBy inputs (sel @ [x])))"
      by (intro sum_list_nonneg) auto
    have "\<bar>avail + balance x\<bar> \<le> MAX_EXACT"
      using bx rest split "1.prems"(3,5,6) by simp
    then have add: "jsAdd avail (balance x) = avail + balance x"
      by (simp add: jsAdd_def round53_exact)
    have "\<exists>r. greedy inputs t (sel @ [x]) (jsAdd avail (balance x)) = Inr r"
      by (rule "1.IH"[OF pick(1) pick(3) "1.prems"(1,2,3,4)])
        (use add bx split "1.prems"(5,6) in simp_all)
    then show ?thesis using pick(4) by simp
  qed
qed

section \<open>Facts about the selection\<close>

lemma uniqBy_seen_subset: "set (uniqBy_seen seen xs) \<subseteq> set xs"
  by (induction xs arbitrary: seen) auto

lemma uniqBy_seen_distinct:
  "distinct (map address xs) \<Longrightarrow> distinct (map address (uniqBy_seen seen xs))"
proof (induction xs arbitrary: seen)
  case Nil
  then show ?case by simp
next
  case (Cons x xs)
  have "address x \<notin> address ` set (uniqBy_seen sn xs)" for sn
    using Cons.prems uniqBy_seen_subset[of sn xs] by auto
  then show ?case using Cons by simp
qed

lemma uniqBy_distinct: "distinct (map address xs) \<Longrightarrow> distinct (map address (uniqBy xs))"
  by (simp add: uniqBy_def uniqBy_seen_distinct)

lemma uniqBy_Nil_iff: "uniqBy xs = [] \<longleftrightarrow> xs = []"
  by (cases xs) (simp_all add: uniqBy_def)

lemma minBy_eq_None [simp]: "minBy xss = None \<longleftrightarrow> xss = []"
  by (cases xss) simp_all

lemma selectWithinLimit_Inr:
  assumes "selectWithinLimit inputs t m = Inr (sel, bal)"
  shows "bal = jsSum (map balance sel) \<and> t \<le> bal \<and> (\<exists>P. sel = filter P (uniqBy inputs))"
  using assms
  by (auto simp: selectWithinLimit_def findSetWithMinSize_def Let_def
      split: option.splits if_splits prod.splits)

lemma transform_address [simp]:
  "map address (transformAddressDataToInputs pool sec) = map address pool"
  by (simp add: transformAddressDataToInputs_def)

lemma transform_balance [simp]:
  "map balance (transformAddressDataToInputs pool sec) = map balance pool"
  by (simp add: transformAddressDataToInputs_def)

lemma positive_inputs_distinct:
  "distinct (map address pool) \<Longrightarrow>
   distinct (map address (filter (\<lambda>inp. balance inp > 0) (transformAddressDataToInputs pool sec)))"
  by (simp add: distinct_map_filter)

lemma sum_positive_ge:
  "sum_list (map balance xs) \<le> sum_list (map balance (filter (\<lambda>x. balance x > 0) xs))"
  by (induction xs) auto

lemma positive_inputs_sum:
  "sum_list (map balance pool)
     \<le> sum_list (map balance (filter (\<lambda>inp. balance inp > 0) (transformAddressDataToInputs pool sec)))"
proof -
  have "sum_list (map balance pool) = sum_list (map balance (transformAddressDataToInputs pool sec))"
    by simp
  also have "\<dots> \<le> sum_list (map balance (filter (\<lambda>inp. balance inp > 0) (transformAddressDataToInputs pool sec)))"
    by (rule sum_positive_ge)
  finally show ?thesis .
qed

lemma differenceBy_Nil [simp]: "differenceBy xs [] = xs"
  by (simp add: differenceBy_def)

lemma prepareInputs_Inr_cases:
  assumes "prepareInputs pool t lim sec = Inr (sel, bal)"
  shows "greedy (filter (\<lambda>inp. balance inp > 0) (transformAddressDataToInputs pool sec)) t [] 0
           = Inr (sel, bal)
       \<or> (\<exists>m. selectWithinLimit (filter (\<lambda>inp. balance inp > 0)
                  (transformAddressDataToInputs pool sec)) t m = Inr (sel, bal))"
  using assms
  by (auto simp: prepareInputs_def Let_def split: if_splits limit_arg.splits sum.splits prod.splits)

lemma prepareInputs_rev2_Inr_cases:
  assumes "prepareInputs_rev2 pool t lim sec = Inr (sel, bal)"
  shows "greedy (filter (\<lambda>inp. balance inp > 0) (transformAddressDataToInputs pool sec)) t [] 0
           = Inr (sel, bal)
       \<or> (\<exists>m. selectWithinLimit (filter (\<lambda>inp. balance inp > 0)
                  (transformAddressDataToInputs pool sec)) t m = Inr (sel, bal))"
  using assms
  by (auto simp: prepareInputs_rev2_def Let_def split: if_splits limit_arg.splits sum.splits prod.splits)

lemma selection_sum:
  assumes "greedy inputs t [] 0 = Inr (sel, bal) \<or> (\<exists>m. selectWithinLimit inputs t m = Inr (sel, bal))"
  shows "bal = jsSum (map balance sel) \<and> t \<le> bal"
  using assms greedy_sum[of inputs t "[]" 0 sel bal] selectWithinLimit_Inr[of inputs t _ sel bal]
  by auto

lemma selection_distinct:
  assumes "distinct (map address inputs)"
    and "greedy inputs t [] 0 = Inr (sel, bal) \<or> (\<exists>m. selectWithinLimit inputs t m = Inr (sel, bal))"
  shows "distinct (map address sel)"
proof -
  { assume "greedy inputs t [] 0 = Inr (sel, bal)"
    then have ?thesis using greedy_distinct[of inputs t "[]" 0 sel bal] by simp }
  moreover
  { fix m assume "selectWithinLimit inputs t m = Inr (sel, bal)"
    then obtain P where "sel = filter P (uniqBy inputs)"
      using selectWithinLimit_Inr by blast
    then have ?thesis using uniqBy_distinct[OF assms(1)] by (simp add: distinct_map_filter) }
  ultimately show ?thesis using assms(2) by blast
qed


text \<open>On an exact pool every selection is summed exactly.\<close>

lemma sum_set_le_sum_list:
  "\<forall>y\<in>set ys. 0 \<le> f y \<Longrightarrow> sum f (set ys) \<le> (sum_list (map f ys) :: int)"
proof (induction ys)
  case Nil
  then show ?case by simp
next
  case (Cons y ys)
  then have "sum f (set ys) \<le> sum_list (map f ys)" "0 \<le> f y" by simp_all
  then show ?case by (cases "y \<in> set ys") (simp_all add: insert_absorb)
qed

lemma sum_list_sub:
  assumes "distinct xs" "set xs \<subseteq> set ys" "\<forall>y\<in>set ys. 0 \<le> f y"
  shows "sum_list (map f xs) \<le> (sum_list (map f ys) :: int)"
proof -
  have "sum_list (map f xs) = sum f (set xs)"
    using assms(1) by (simp add: sum_list_distinct_conv_sum_set)
  also have "\<dots> \<le> sum f (set ys)"
    using assms(2,3) by (intro sum_mono2) auto
  also have "\<dots> \<le> sum_list (map f ys)"
    using assms(3) by (rule sum_set_le_sum_list)
  finally show ?thesis .
qed

lemma sum_filter_le:
  "\<forall>y\<in>set ys. 0 \<le> f y \<Longrightarrow> sum_list (map f (filter P ys)) \<le> (sum_list (map f ys) :: int)"
  by (induction ys) auto

lemma sum_uniqBy_seen_le:
  "\<forall>y\<in>set ys. 0 \<le> balance y \<Longrightarrow>
   sum_list (map balance (uniqBy_seen seen ys)) \<le> sum_list (map balance ys)"
proof (induction ys arbitrary: seen)
  case Nil
  then show ?case by simp
next
  case (Cons y ys)
  have "sum_list (map balance (uniqBy_seen sn ys)) \<le> sum_list (map balance ys)" for sn
    using Cons by simp
  moreover have "0 \<le> balance y" using Cons.prems by simp
  ultimately show ?case
    by (cases "balance y \<in> set seen") (simp_all add: add_increasing)
qed

lemma exact_pool_inputs:
  assumes "exact_pool pool"
  shows "exact_pool (filter (\<lambda>inp. balance inp > 0) (transformAddressDataToInputs pool sec))"
    and "sum_list (map balance (filter (\<lambda>inp. balance inp > 0)
            (transformAddressDataToInputs pool sec))) = sum_list (map balance pool)"
proof -
  have nn: "\<forall>x\<in>set (transformAddressDataToInputs pool sec). 0 \<le> balance x"
    using assms by (auto simp: exact_pool_def transformAddressDataToInputs_def)
  have eq: "\<forall>x\<in>set xs. 0 \<le> balance x \<Longrightarrow>
      sum_list (map balance (filter (\<lambda>x. balance x > 0) xs)) = sum_list (map balance xs)"
    for xs :: "input list"
    by (induction xs) auto
  show "sum_list (map balance (filter (\<lambda>inp. balance inp > 0)
            (transformAddressDataToInputs pool sec))) = sum_list (map balance pool)"
    using eq[OF nn] by simp
  then show "exact_pool (filter (\<lambda>inp. balance inp > 0) (transformAddressDataToInputs pool sec))"
    using assms nn by (simp add: exact_pool_def)
qed

lemma exact_pool_jsSum:
  "exact_pool pool \<Longrightarrow> jsSum (map balance pool) = sum_list (map balance pool)"
  by (intro jsSum_exact) (auto simp: exact_pool_def)

lemma exact_pool_sub:
  assumes "exact_pool ys" "set xs \<subseteq> set ys"
    "sum_list (map balance xs) \<le> sum_list (map balance ys)"
  shows "exact_pool xs"
  using assms by (auto simp: exact_pool_def)

lemma selection_exact:
  assumes "exact_pool inputs"
    and "greedy inputs t [] 0 = Inr (sel, bal) \<or> (\<exists>m. selectWithinLimit inputs t m = Inr (sel, bal))"
  shows "exact_pool sel"
proof -
  have nn: "\<forall>y\<in>set inputs. 0 \<le> balance y" using assms(1) by (simp add: exact_pool_def)
  { assume g: "greedy inputs t [] 0 = Inr (sel, bal)"
    then have d: "distinct (map address sel)" and sub: "set sel \<subseteq> set inputs"
      using greedy_distinct[of inputs t "[]" 0 sel bal] by simp_all
    from d have "distinct sel" by (simp add: distinct_map)
    then have "sum_list (map balance sel) \<le> sum_list (map balance inputs)"
      using sub nn by (rule sum_list_sub)
    then have ?thesis using assms(1) sub by (rule exact_pool_sub[rotated 2]) }
  moreover
  { fix m assume "selectWithinLimit inputs t m = Inr (sel, bal)"
    then obtain P where sel: "sel = filter P (uniqBy inputs)"
      using selectWithinLimit_Inr by blast
    have sub: "set sel \<subseteq> set inputs"
      using uniqBy_seen_subset[of "[]" inputs] by (auto simp: sel uniqBy_def)
    have u: "sum_list (map balance (uniqBy inputs)) \<le> sum_list (map balance inputs)"
      using sum_uniqBy_seen_le[OF nn] by (simp add: uniqBy_def)
    have "\<forall>y\<in>set (uniqBy inputs). 0 \<le> balance y"
      using nn uniqBy_seen_subset[of "[]" inputs] by (auto simp: uniqBy_def)
    then have "sum_list (map balance sel) \<le> sum_list (map balance (uniqBy inputs))"
      unfolding sel by (rule sum_filter_le)
    with u have "sum_list (map balance sel) \<le> sum_list (map balance inputs)" by simp
    then have ?thesis using assms(1) sub by (rule exact_pool_sub[rotated 2]) }
  ultimately show ?thesis using assms(2) by blast
qed

section \<open>Evaluation on concrete inputs\<close>

declare bit_length.simps [simp del]

text \<open>The roundings beyond \<open>2^53\<close> that the examples below meet.\<close>

lemma round53_beyond:
  "round53 9007199254740993 = 9007199254740992"
  "round53 9007199254740995 = 9007199254740996"
  "round53 9007199254740996 = 9007199254740996"
  by (simp_all add: round53_def MAX_EXACT_def Let_def bit_length.simps)

lemmas number_eval = jsSum_def jsAdd_def jsSub_def round53_exact MAX_EXACT_def

lemmas search_eval = calculate.simps each_from.simps(2) Let_def initial_state_def
  subsetSumWithLimit_def DEFAULT_MAX_CALL_TIMES_def number_eval

lemmas select_eval = prepareInputs_def prepareInputs_rev2_def transformAddressDataToInputs_def
  sortInputsByOptimalValue_def differenceBy_def selectWithinLimit_def uniqBy_def
  findSetWithMinSize_def greedy.simps number_eval

lemmas example_defs = example_filterNonFunded_def example_omitIncoming_def
  example_filterOutgoing_def example_pickUnspent_def example_constructBundles_def
  example_filterNonFundedBundles_def example_addressData_def example_transactions_def

section \<open>The claims\<close>

text \<open>
  C1 (as amended).  Whenever \<open>prepareInputs\<close> succeeds, in either revision, the balance it
  reports is the sum of the balances of the selected inputs as the program computes it
  (from the left, in double precision), and it is at least the threshold.  On a pool whose
  balances are not negative and total at most \<open>2^53\<close> that sum is the exact sum, so the
  exact sum of the selected balances is at least the threshold.  (That the sum is the
  smallest achievable overshoot does not hold.)
\<close>

theorem prepareInputs_sum_reaches_threshold:
  "(prepareInputs pool threshold lim sec = Inr (sel, bal)
      \<longrightarrow> bal = jsSum (map balance sel) \<and> threshold \<le> bal
          \<and> (exact_pool pool
               \<longrightarrow> bal = sum_list (map balance sel) \<and> threshold \<le> sum_list (map balance sel)))
   \<and> (prepareInputs_rev2 pool threshold lim sec = Inr (sel, bal)
      \<longrightarrow> bal = jsSum (map balance sel) \<and> threshold \<le> bal
          \<and> (exact_pool pool
               \<longrightarrow> bal = sum_list (map balance sel) \<and> threshold \<le> sum_list (map balance sel)))"
proof -
  let ?inputs = "filter (\<lambda>inp. balance inp > 0) (transformAddressDataToInputs pool sec)"
  have main: "bal = jsSum (map balance sel) \<and> threshold \<le> bal
          \<and> (exact_pool pool
               \<longrightarrow> bal = sum_list (map balance sel) \<and> threshold \<le> sum_list (map balance sel))"
    if c: "greedy ?inputs threshold [] 0 = Inr (sel, bal)
           \<or> (\<exists>m. selectWithinLimit ?inputs threshold m = Inr (sel, bal))"
  proof -
    have s: "bal = jsSum (map balance sel)" "threshold \<le> bal"
      using selection_sum[OF c] by simp_all
    have "jsSum (map balance sel) = sum_list (map balance sel)" if "exact_pool pool"
      using exact_pool_jsSum[OF selection_exact[OF exact_pool_inputs(1)[OF that] c]] .
    with s show ?thesis by auto
  qed
  show ?thesis
    using main[OF prepareInputs_Inr_cases] main[OF prepareInputs_rev2_Inr_cases] by blast
qed

theorem prepareInputs_sum_reaches_threshold_witness:
  "exact_pool
     [\<lparr>address = ''A'', balance = 10, index = 0, spent_local = False, spent_remote = False\<rparr>,
      \<lparr>address = ''B'', balance = 7, index = 1, spent_local = False, spent_remote = False\<rparr>,
      \<lparr>address = ''C'', balance = 4, index = 2, spent_local = False, spent_remote = False\<rparr>]
   \<and> prepareInputs
     [\<lparr>address = ''A'', balance = 10, index = 0, spent_local = False, spent_remote = False\<rparr>,
      \<lparr>address = ''B'', balance = 7, index = 1, spent_local = False, spent_remote = False\<rparr>,
      \<lparr>address = ''C'', balance = 4, index = 2, spent_local = False, spent_remote = False\<rparr>]
     8 (Num 2) 2
   = Inr ([\<lparr>address = ''B'', balance = 7, security = 2, keyIndex = 1\<rparr>,
           \<lparr>address = ''C'', balance = 4, security = 2, keyIndex = 2\<rparr>], 11)
   \<and> (11::int) = sum_list (map balance
          [\<lparr>address = ''B'', balance = 7, security = 2, keyIndex = 1\<rparr>,
           \<lparr>address = ''C'', balance = 4, security = 2, keyIndex = 2\<rparr>])
   \<and> (8::int) \<le> sum_list (map balance
          [\<lparr>address = ''B'', balance = 7, security = 2, keyIndex = 1\<rparr>,
           \<lparr>address = ''C'', balance = 4, security = 2, keyIndex = 2\<rparr>])"
proof -
  let ?pool =
    "[\<lparr>address = ''A'', balance = 10, index = 0, spent_local = False, spent_remote = False\<rparr>,
      \<lparr>address = ''B'', balance = 7, index = 1, spent_local = False, spent_remote = False\<rparr>,
      \<lparr>address = ''C'', balance = 4, index = 2, spent_local = False, spent_remote = False\<rparr>]"
  have ex: "exact_pool ?pool" by (simp add: exact_pool_def MAX_EXACT_def)
  have run: "prepareInputs ?pool 8 (Num 2) 2
   = Inr ([\<lparr>address = ''B'', balance = 7, security = 2, keyIndex = 1\<rparr>,
           \<lparr>address = ''C'', balance = 4, security = 2, keyIndex = 2\<rparr>], 11)"
    by (simp add: select_eval)
  from prepareInputs_sum_reaches_threshold[THEN conjunct1, rule_format, OF run] ex run
  show ?thesis by blast
qed

text \<open>
  C1 as stated fails.  For the pool of balances 10, 7, 4 (in this order), threshold 8 and
  limit 2, the greedy pass selects 7 and then 4, two inputs, and returns the sum 11; no
  subset of the balances sums to 8, and the single input of balance 10 is within the limit
  and reaches the threshold with the smaller sum 10.  And for the pool of balances \<open>2^53\<close>
  and 3 with the threshold \<open>2^53 + 4\<close> the call succeeds and reports \<open>2^53 + 4\<close>, the
  rounded sum, while the selected balances sum to \<open>2^53 + 3\<close>, below the threshold.
\<close>

theorem prepareInputs_not_smallest_overshoot:
  "prepareInputs
     [\<lparr>address = ''A'', balance = 10, index = 0, spent_local = False, spent_remote = False\<rparr>,
      \<lparr>address = ''B'', balance = 7, index = 1, spent_local = False, spent_remote = False\<rparr>,
      \<lparr>address = ''C'', balance = 4, index = 2, spent_local = False, spent_remote = False\<rparr>]
     8 (Num 2) 2
   = Inr ([\<lparr>address = ''B'', balance = 7, security = 2, keyIndex = 1\<rparr>,
           \<lparr>address = ''C'', balance = 4, security = 2, keyIndex = 2\<rparr>], 11)
   \<and> (8::int) \<notin> set (map sum_list (subseqs [10, 7, 4]))
   \<and> [\<lparr>address = ''A'', balance = 10, security = 2, keyIndex = 0\<rparr>]
       \<in> set (subseqs (transformAddressDataToInputs
          [\<lparr>address = ''A'', balance = 10, index = 0, spent_local = False, spent_remote = False\<rparr>,
           \<lparr>address = ''B'', balance = 7, index = 1, spent_local = False, spent_remote = False\<rparr>,
           \<lparr>address = ''C'', balance = 4, index = 2, spent_local = False, spent_remote = False\<rparr>]
          2))
   \<and> int (length [\<lparr>address = ''A'', balance = 10, security = 2, keyIndex = 0\<rparr>]) \<le> 2
   \<and> (8::int) \<le> sum_list (map balance [\<lparr>address = ''A'', balance = 10, security = 2, keyIndex = 0\<rparr>])
   \<and> sum_list (map balance [\<lparr>address = ''A'', balance = 10, security = 2, keyIndex = 0\<rparr>]) < (11::int)
   \<and> prepareInputs
     [\<lparr>address = ''A'', balance = 9007199254740992, index = 0, spent_local = False, spent_remote = False\<rparr>,
      \<lparr>address = ''B'', balance = 3, index = 1, spent_local = False, spent_remote = False\<rparr>]
     9007199254740996 (Num 2) 2
   = Inr ([\<lparr>address = ''A'', balance = 9007199254740992, security = 2, keyIndex = 0\<rparr>,
           \<lparr>address = ''B'', balance = 3, security = 2, keyIndex = 1\<rparr>], 9007199254740996)
   \<and> sum_list (map balance
          [\<lparr>address = ''A'', balance = 9007199254740992, security = 2, keyIndex = 0\<rparr>,
           \<lparr>address = ''B'', balance = 3, security = 2, keyIndex = 1\<rparr>]) < (9007199254740996::int)"
  by (simp add: select_eval round53_beyond)

text \<open>
  C2 (as amended).  For a pool with pairwise distinct addresses, balances that are not
  negative and total at most \<open>2^53\<close>, and a positive threshold that the total covers, the
  greedy pass succeeds, and
  \<^item> the first revision of \<open>prepareInputs\<close>, called with the limit 0, returns the greedy
    selection whatever its size;
  \<^item> the second revision returns the greedy selection when the limit is \<^verbatim>\<open>null\<close>, and
    rejects the limit 0 with \<open>INPUTS_LIMIT_CANNOT_BE_ZERO\<close>;
  \<^item> in both revisions a limit left out of the call is the default limit 2.
\<close>

theorem limit_zero_and_absent_limit:
  assumes "distinct (map address pool)"
    and "exact_pool pool"
    and "threshold \<le> sum_list (map balance pool)"
    and "0 < threshold"
  shows "\<exists>sel bal.
      greedy (filter (\<lambda>inp. balance inp > 0) (transformAddressDataToInputs pool sec))
        threshold [] 0 = Inr (sel, bal)
      \<and> prepareInputs pool threshold (Num 0) sec = Inr (sel, bal)
      \<and> prepareInputs_rev2 pool threshold Null sec = Inr (sel, bal)
      \<and> prepareInputs_rev2 pool threshold (Num 0) sec = Inl INPUTS_LIMIT_CANNOT_BE_ZERO
      \<and> prepareInputs pool threshold Undefined sec = prepareInputs pool threshold (Num 2) sec
      \<and> prepareInputs_rev2 pool threshold Undefined sec
          = prepareInputs_rev2 pool threshold (Num 2) sec"
proof -
  let ?inputs = "filter (\<lambda>inp. balance inp > 0) (transformAddressDataToInputs pool sec)"
  have d: "distinct (map address ?inputs)"
    using assms(1) by (rule positive_inputs_distinct)
  have e: "exact_pool ?inputs"
    and t: "sum_list (map balance ?inputs) = sum_list (map balance pool)"
    using exact_pool_inputs[OF assms(2)] by simp_all
  have "\<exists>r. greedy ?inputs threshold [] 0 = Inr r"
    using d e t assms(3) by (intro greedy_succeeds) (simp_all add: exact_pool_def)
  then obtain sel bal where g: "greedy ?inputs threshold [] 0 = Inr (sel, bal)"
    by auto
  have ok: "\<not> jsSum (map balance pool) < threshold" "threshold \<noteq> 0"
    using assms(3,4) exact_pool_jsSum[OF assms(2)] by simp_all
  have "prepareInputs pool threshold (Num 0) sec = Inr (sel, bal)"
    using ok g by (simp add: prepareInputs_def)
  moreover have "prepareInputs_rev2 pool threshold Null sec = Inr (sel, bal)"
    using ok g by (simp add: prepareInputs_rev2_def)
  moreover have "prepareInputs_rev2 pool threshold (Num 0) sec = Inl INPUTS_LIMIT_CANNOT_BE_ZERO"
    using ok by (simp add: prepareInputs_rev2_def)
  moreover have "prepareInputs pool threshold Undefined sec = prepareInputs pool threshold (Num 2) sec"
    by (simp add: prepareInputs_def)
  moreover have "prepareInputs_rev2 pool threshold Undefined sec
      = prepareInputs_rev2 pool threshold (Num 2) sec"
    by (simp add: prepareInputs_rev2_def)
  ultimately show ?thesis using g by blast
qed

theorem limit_zero_and_absent_limit_witness:
  "distinct (map address
     [\<lparr>address = ''A'', balance = 1, index = 0, spent_local = False, spent_remote = False\<rparr>,
      \<lparr>address = ''B'', balance = 1, index = 1, spent_local = False, spent_remote = False\<rparr>,
      \<lparr>address = ''C'', balance = 1, index = 2, spent_local = False, spent_remote = False\<rparr>])
   \<and> exact_pool
     [\<lparr>address = ''A'', balance = 1, index = 0, spent_local = False, spent_remote = False\<rparr>,
      \<lparr>address = ''B'', balance = 1, index = 1, spent_local = False, spent_remote = False\<rparr>,
      \<lparr>address = ''C'', balance = 1, index = 2, spent_local = False, spent_remote = False\<rparr>]
   \<and> (3::int) \<le> sum_list (map balance
     [\<lparr>address = ''A'', balance = 1, index = 0, spent_local = False, spent_remote = False\<rparr>,
      \<lparr>address = ''B'', balance = 1, index = 1, spent_local = False, spent_remote = False\<rparr>,
      \<lparr>address = ''C'', balance = 1, index = 2, spent_local = False, spent_remote = False\<rparr>])
   \<and> (0::int) < 3
   \<and> (\<exists>sel bal. prepareInputs
     [\<lparr>address = ''A'', balance = 1, index = 0, spent_local = False, spent_remote = False\<rparr>,
      \<lparr>address = ''B'', balance = 1, index = 1, spent_local = False, spent_remote = False\<rparr>,
      \<lparr>address = ''C'', balance = 1, index = 2, spent_local = False, spent_remote = False\<rparr>]
     3 (Num 0) 2 = Inr (sel, bal))
   \<and> prepareInputs_rev2
     [\<lparr>address = ''A'', balance = 1, index = 0, spent_local = False, spent_remote = False\<rparr>,
      \<lparr>address = ''B'', balance = 1, index = 1, spent_local = False, spent_remote = False\<rparr>,
      \<lparr>address = ''C'', balance = 1, index = 2, spent_local = False, spent_remote = False\<rparr>]
     3 (Num 0) 2 = Inl INPUTS_LIMIT_CANNOT_BE_ZERO"
proof -
  let ?pool =
    "[\<lparr>address = ''A'', balance = 1, index = 0, spent_local = False, spent_remote = False\<rparr>,
      \<lparr>address = ''B'', balance = 1, index = 1, spent_local = False, spent_remote = False\<rparr>,
      \<lparr>address = ''C'', balance = 1, index = 2, spent_local = False, spent_remote = False\<rparr>]"
  have d: "distinct (map address ?pool)" by simp
  have e: "exact_pool ?pool" by (simp add: exact_pool_def MAX_EXACT_def)
  have s: "(3::int) \<le> sum_list (map balance ?pool)" by simp
  have p: "(0::int) < 3" by simp
  from limit_zero_and_absent_limit[OF d e s p, of 2] d e s p show ?thesis by blast
qed

text \<open>
  C2 as stated fails, in three ways.  The second revision throws
  \<open>INPUTS_LIMIT_CANNOT_BE_ZERO\<close> on the limit 0, although the pool (balances 10, 7, 4) covers
  the positive threshold 8.  The first revision, with the limit 0, throws
  \<open>INSUFFICIENT_BALANCE\<close> on the pool of balances \<open>2^53\<close>, 1, 1 and the threshold \<open>2^53 + 2\<close>,
  which the total equals: the sum from the left stays at \<open>2^53\<close>.  And on an array that holds
  the address \<open>A\<close> twice, with the balance 1 each, the second revision with the limit
  \<^verbatim>\<open>null\<close> and the threshold 2 runs out of candidates after the first pick and raises a
  \<^verbatim>\<open>TypeError\<close>.
\<close>

theorem limit_zero_rejected_by_second_revision:
  "prepareInputs_rev2
     [\<lparr>address = ''A'', balance = 10, index = 0, spent_local = False, spent_remote = False\<rparr>,
      \<lparr>address = ''B'', balance = 7, index = 1, spent_local = False, spent_remote = False\<rparr>,
      \<lparr>address = ''C'', balance = 4, index = 2, spent_local = False, spent_remote = False\<rparr>]
     8 (Num 0) 2 = Inl INPUTS_LIMIT_CANNOT_BE_ZERO
   \<and> (8::int) \<le> sum_list (map balance
     [\<lparr>address = ''A'', balance = 10, index = 0, spent_local = False, spent_remote = False\<rparr>,
      \<lparr>address = ''B'', balance = 7, index = 1, spent_local = False, spent_remote = False\<rparr>,
      \<lparr>address = ''C'', balance = 4, index = 2, spent_local = False, spent_remote = False\<rparr>])
   \<and> (0::int) < 8
   \<and> prepareInputs
     [\<lparr>address = ''A'', balance = 9007199254740992, index = 0, spent_local = False, spent_remote = False\<rparr>,
      \<lparr>address = ''B'', balance = 1, index = 1, spent_local = False, spent_remote = False\<rparr>,
      \<lparr>address = ''C'', balance = 1, index = 2, spent_local = False, spent_remote = False\<rparr>]
     9007199254740994 (Num 0) 2 = Inl INSUFFICIENT_BALANCE
   \<and> (9007199254740994::int) \<le> sum_list (map balance
     [\<lparr>address = ''A'', balance = 9007199254740992, index = 0, spent_local = False, spent_remote = False\<rparr>,
      \<lparr>address = ''B'', balance = 1, index = 1, spent_local = False, spent_remote = False\<rparr>,
      \<lparr>address = ''C'', balance = 1, index = 2, spent_local = False, spent_remote = False\<rparr>])
   \<and> prepareInputs_rev2
     [\<lparr>address = ''A'', balance = 1, index = 0, spent_local = False, spent_remote = False\<rparr>,
      \<lparr>address = ''A'', balance = 1, index = 0, spent_local = False, spent_remote = False\<rparr>]
     2 Null 2 = Inl TYPE_ERROR
   \<and> (2::int) \<le> sum_list (map balance
     [\<lparr>address = ''A'', balance = 1, index = 0, spent_local = False, spent_remote = False\<rparr>,
      \<lparr>address = ''A'', balance = 1, index = 0, spent_local = False, spent_remote = False\<rparr>])"
  by (simp add: select_eval round53_beyond)

text \<open>
  C3.  For every pool of five entries of balance 1 with pairwise distinct addresses,
  threshold 3 and limit 2: the greedy pass selects three inputs, which exceeds the limit;
  the unique balances are \<open>[1]\<close>; the search over them records neither an exact match
  nor an exceeding combination; and \<open>prepareInputs\<close> (in both revisions) throws
  \<open>CANNOT_FIND_INPUTS_WITH_PROVIDED_LIMIT\<close>.
\<close>

theorem five_ones_cannot_meet_limit:
  assumes "map balance pool = [1, 1, 1, 1, 1]" and "distinct (map address pool)"
  shows "(\<exists>sel. greedy (filter (\<lambda>inp. balance inp > 0) (transformAddressDataToInputs pool sec))
                  3 [] 0 = Inr (sel, 3) \<and> length sel = 3)
    \<and> map balance (uniqBy (filter (\<lambda>inp. balance inp > 0) (transformAddressDataToInputs pool sec)))
        = [1]
    \<and> subsetSumWithLimit 2 DEFAULT_MAX_CALL_TIMES [1] 3 = Some ([], [])
    \<and> prepareInputs pool 3 (Num 2) sec = Inl CANNOT_FIND_INPUTS_WITH_PROVIDED_LIMIT
    \<and> prepareInputs_rev2 pool 3 (Num 2) sec = Inl CANNOT_FIND_INPUTS_WITH_PROVIDED_LIMIT"
proof -
  from assms(1) obtain e1 e2 e3 e4 e5 where pool: "pool = [e1, e2, e3, e4, e5]"
    and b: "balance e1 = 1" "balance e2 = 1" "balance e3 = 1" "balance e4 = 1" "balance e5 = 1"
    by (auto simp: map_eq_Cons_conv)
  from assms(2) have d: "distinct [address e1, address e2, address e3, address e4, address e5]"
    by (simp add: pool)
  then have d': "distinct [address e5, address e4, address e3, address e2, address e1]"
    by auto
  have "\<exists>sel. greedy (filter (\<lambda>inp. balance inp > 0) (transformAddressDataToInputs pool sec))
                  3 [] 0 = Inr (sel, 3) \<and> length sel = 3"
    using d d' b by (simp add: pool select_eval)
  moreover have "map balance (uniqBy (filter (\<lambda>inp. balance inp > 0)
                   (transformAddressDataToInputs pool sec))) = [1]"
    using b by (simp add: pool select_eval)
  moreover have "subsetSumWithLimit 2 DEFAULT_MAX_CALL_TIMES [1] 3 = Some ([], [])"
    by (simp add: search_eval)
  moreover have "prepareInputs pool 3 (Num 2) sec = Inl CANNOT_FIND_INPUTS_WITH_PROVIDED_LIMIT"
    using d d' b by (simp add: pool select_eval search_eval)
  moreover have "prepareInputs_rev2 pool 3 (Num 2) sec = Inl CANNOT_FIND_INPUTS_WITH_PROVIDED_LIMIT"
    using d d' b by (simp add: pool select_eval search_eval)
  ultimately show ?thesis by blast
qed

theorem five_ones_cannot_meet_limit_witness:
  "map balance
     [\<lparr>address = ''A'', balance = 1, index = 0, spent_local = False, spent_remote = False\<rparr>,
      \<lparr>address = ''B'', balance = 1, index = 1, spent_local = False, spent_remote = False\<rparr>,
      \<lparr>address = ''C'', balance = 1, index = 2, spent_local = False, spent_remote = False\<rparr>,
      \<lparr>address = ''D'', balance = 1, index = 3, spent_local = False, spent_remote = False\<rparr>,
      \<lparr>address = ''E'', balance = 1, index = 4, spent_local = False, spent_remote = False\<rparr>]
     = [1, 1, 1, 1, 1]
   \<and> distinct (map address
     [\<lparr>address = ''A'', balance = 1, index = 0, spent_local = False, spent_remote = False\<rparr>,
      \<lparr>address = ''B'', balance = 1, index = 1, spent_local = False, spent_remote = False\<rparr>,
      \<lparr>address = ''C'', balance = 1, index = 2, spent_local = False, spent_remote = False\<rparr>,
      \<lparr>address = ''D'', balance = 1, index = 3, spent_local = False, spent_remote = False\<rparr>,
      \<lparr>address = ''E'', balance = 1, index = 4, spent_local = False, spent_remote = False\<rparr>])
   \<and> prepareInputs
     [\<lparr>address = ''A'', balance = 1, index = 0, spent_local = False, spent_remote = False\<rparr>,
      \<lparr>address = ''B'', balance = 1, index = 1, spent_local = False, spent_remote = False\<rparr>,
      \<lparr>address = ''C'', balance = 1, index = 2, spent_local = False, spent_remote = False\<rparr>,
      \<lparr>address = ''D'', balance = 1, index = 3, spent_local = False, spent_remote = False\<rparr>,
      \<lparr>address = ''E'', balance = 1, index = 4, spent_local = False, spent_remote = False\<rparr>]
     3 (Num 2) 2 = Inl CANNOT_FIND_INPUTS_WITH_PROVIDED_LIMIT"
proof -
  let ?pool =
    "[\<lparr>address = ''A'', balance = 1, index = 0, spent_local = False, spent_remote = False\<rparr>,
      \<lparr>address = ''B'', balance = 1, index = 1, spent_local = False, spent_remote = False\<rparr>,
      \<lparr>address = ''C'', balance = 1, index = 2, spent_local = False, spent_remote = False\<rparr>,
      \<lparr>address = ''D'', balance = 1, index = 3, spent_local = False, spent_remote = False\<rparr>,
      \<lparr>address = ''E'', balance = 1, index = 4, spent_local = False, spent_remote = False\<rparr>]"
  have b: "map balance ?pool = [1, 1, 1, 1, 1]" by simp
  have d: "distinct (map address ?pool)" by simp
  from five_ones_cannot_meet_limit[OF b d, of 2] b d show ?thesis by blast
qed

text \<open>
  C4.  The search does not stop when the call counter reaches \<open>MAX_CALL_TIMES\<close>: with
  \<open>MAX_CALL_TIMES = 3\<close>, the balances \<open>[1, 2, 3]\<close> and the threshold 100, \<open>calculate\<close> is
  called 8 times (once for every subset), and the first call returns only because the loop
  over the balances has reached the last one.  In general the state that the search leaves,
  its counter and both arrays, does not depend on \<open>MAX_CALL_TIMES\<close> at all.
\<close>

theorem max_call_times_does_not_stop_the_search:
  "callTimes (snd (calculate 2 3 [1, 2, 3] 100 [] initial_state)) = 8
   \<and> subsetSumWithLimit 2 3 [1, 2, 3] 100 = Some ([], [])
   \<and> snd (calculate limit m balances threshold partial s)
       = snd (calculate limit m' balances threshold partial s)"
proof -
  have "callTimes (snd (calculate 2 3 [1, 2, 3] 100 [] initial_state)) = 8"
    by (simp add: search_eval)
  moreover have "subsetSumWithLimit 2 3 [1, 2, 3] 100 = Some ([], [])"
    by (simp add: search_eval)
  ultimately show ?thesis
    using search_independent_of_max[of limit m balances threshold m'] by blast
qed

text \<open>
  C5.  With the default limit 2, the search over \<open>[10, 20, 30]\<close> for the threshold 30 records
  exactly the exact match \<open>[10, 20]\<close> and makes three calls (for \<open>[]\<close>, \<open>[10]\<close> and
  \<open>[10, 20]\<close>), so \<open>[30]\<close> is never visited.  In general, a loop over the balances that
  starts once an exact match has been found does nothing, and a search never records more
  than one exact match.
\<close>

theorem first_exact_match_wins:
  "subsetSumWithLimit 2 DEFAULT_MAX_CALL_TIMES [10, 20, 30] 30 = Some ([[10, 20]], [])
   \<and> callTimes (snd (calculate 2 DEFAULT_MAX_CALL_TIMES [10, 20, 30] 30 [] initial_state)) = 3
   \<and> each_from limit m balances idx threshold partial (s\<lparr>hasFoundAnExactMatch := True\<rparr>)
       = s\<lparr>hasFoundAnExactMatch := True\<rparr>
   \<and> length (exactMatches (snd (calculate limit m balances threshold partial initial_state))) \<le> 1"
proof -
  have "subsetSumWithLimit 2 DEFAULT_MAX_CALL_TIMES [10, 20, 30] 30 = Some ([[10, 20]], [])"
    by (simp add: search_eval)
  moreover have "callTimes (snd (calculate 2 DEFAULT_MAX_CALL_TIMES [10, 20, 30] 30 [] initial_state)) = 3"
    by (simp add: search_eval)
  ultimately show ?thesis
    using exactMatches_at_most_one[of limit m balances threshold partial] by simp
qed



text \<open>
  C9 (as amended).  The greedy pass never selects an address twice, whatever the pool.
  When the addresses of the pool are pairwise distinct, every selection that
  \<open>prepareInputs\<close> returns, in either revision and on either path, has pairwise distinct
  addresses.
\<close>

theorem no_address_selected_twice:
  "(greedy inputs threshold [] 0 = Inr (sel, bal) \<longrightarrow> distinct (map address sel))
   \<and> (distinct (map address pool) \<and> prepareInputs pool threshold lim sec = Inr (sel', bal')
        \<longrightarrow> distinct (map address sel'))
   \<and> (distinct (map address pool) \<and> prepareInputs_rev2 pool threshold lim sec = Inr (sel', bal')
        \<longrightarrow> distinct (map address sel'))"
proof -
  have "greedy inputs threshold [] 0 = Inr (sel, bal) \<Longrightarrow> distinct (map address sel)"
    using greedy_distinct[of inputs threshold "[]" 0 sel bal] by simp
  moreover have "distinct (map address sel')"
    if "distinct (map address pool)" "prepareInputs pool threshold lim sec = Inr (sel', bal')"
    using selection_distinct[OF positive_inputs_distinct[OF that(1)]
        prepareInputs_Inr_cases[OF that(2)]] .
  moreover have "distinct (map address sel')"
    if "distinct (map address pool)" "prepareInputs_rev2 pool threshold lim sec = Inr (sel', bal')"
    using selection_distinct[OF positive_inputs_distinct[OF that(1)]
        prepareInputs_rev2_Inr_cases[OF that(2)]] .
  ultimately show ?thesis by blast
qed

theorem no_address_selected_twice_witness:
  "distinct (map address
     [\<lparr>address = ''A'', balance = 1, index = 0, spent_local = False, spent_remote = False\<rparr>,
      \<lparr>address = ''B'', balance = 2, index = 1, spent_local = False, spent_remote = False\<rparr>,
      \<lparr>address = ''C'', balance = 3, index = 2, spent_local = False, spent_remote = False\<rparr>,
      \<lparr>address = ''D'', balance = 50, index = 3, spent_local = False, spent_remote = False\<rparr>])
   \<and> prepareInputs
     [\<lparr>address = ''A'', balance = 1, index = 0, spent_local = False, spent_remote = False\<rparr>,
      \<lparr>address = ''B'', balance = 2, index = 1, spent_local = False, spent_remote = False\<rparr>,
      \<lparr>address = ''C'', balance = 3, index = 2, spent_local = False, spent_remote = False\<rparr>,
      \<lparr>address = ''D'', balance = 50, index = 3, spent_local = False, spent_remote = False\<rparr>]
     6 (Num 2) 2
     = Inr ([\<lparr>address = ''D'', balance = 50, security = 2, keyIndex = 3\<rparr>], 50)
   \<and> distinct (map address [\<lparr>address = ''D'', balance = 50, security = 2, keyIndex = 3\<rparr>])
   \<and> greedy
     [\<lparr>address = ''A'', balance = 1, security = 2, keyIndex = 0\<rparr>,
      \<lparr>address = ''B'', balance = 2, security = 2, keyIndex = 1\<rparr>,
      \<lparr>address = ''C'', balance = 3, security = 2, keyIndex = 2\<rparr>,
      \<lparr>address = ''D'', balance = 50, security = 2, keyIndex = 3\<rparr>] 6 [] 0
     = Inr ([\<lparr>address = ''C'', balance = 3, security = 2, keyIndex = 2\<rparr>,
             \<lparr>address = ''B'', balance = 2, security = 2, keyIndex = 1\<rparr>,
             \<lparr>address = ''A'', balance = 1, security = 2, keyIndex = 0\<rparr>], 6)
   \<and> distinct (map address
            [\<lparr>address = ''C'', balance = 3, security = 2, keyIndex = 2\<rparr>,
             \<lparr>address = ''B'', balance = 2, security = 2, keyIndex = 1\<rparr>,
             \<lparr>address = ''A'', balance = 1, security = 2, keyIndex = 0\<rparr>])"
proof -
  let ?pool =
    "[\<lparr>address = ''A'', balance = 1, index = 0, spent_local = False, spent_remote = False\<rparr>,
      \<lparr>address = ''B'', balance = 2, index = 1, spent_local = False, spent_remote = False\<rparr>,
      \<lparr>address = ''C'', balance = 3, index = 2, spent_local = False, spent_remote = False\<rparr>,
      \<lparr>address = ''D'', balance = 50, index = 3, spent_local = False, spent_remote = False\<rparr>]"
  let ?inputs =
    "[\<lparr>address = ''A'', balance = 1, security = 2, keyIndex = 0\<rparr>,
      \<lparr>address = ''B'', balance = 2, security = 2, keyIndex = 1\<rparr>,
      \<lparr>address = ''C'', balance = 3, security = 2, keyIndex = 2\<rparr>,
      \<lparr>address = ''D'', balance = 50, security = 2, keyIndex = 3\<rparr>]"
  let ?sel = "[\<lparr>address = ''C'', balance = 3, security = 2, keyIndex = 2\<rparr>,
               \<lparr>address = ''B'', balance = 2, security = 2, keyIndex = 1\<rparr>,
               \<lparr>address = ''A'', balance = 1, security = 2, keyIndex = 0\<rparr>]"
  let ?d = "\<lparr>address = ''D'', balance = 50, security = 2, keyIndex = 3\<rparr>"
  have d: "distinct (map address ?pool)" by simp
  have g: "greedy ?inputs 6 [] 0 = Inr (?sel, 6)"
    by (simp add: greedy.simps sortInputsByOptimalValue_def differenceBy_def number_eval)
  have run: "prepareInputs ?pool 6 (Num 2) 2 = Inr ([?d], 50)"
    by (simp add: select_eval search_eval)
  from no_address_selected_twice[of ?inputs 6 ?sel 6 ?pool "Num 2" 2 "[?d]" 50] d g run
  show ?thesis by blast
qed

text \<open>
  C9 as stated fails on the path through the search, where the inputs are made unique by
  balance and not by address: for an array that holds the address \<open>A\<close> twice, with the
  balances 10 and 20, the threshold 30 and the limit 2, the greedy pass selects three
  inputs (20, 9, 1), and the second revision then returns the exact match found by the
  search, the two entries of the address \<open>A\<close>.
\<close>

theorem repeated_address_in_pool_is_returned_twice:
  "prepareInputs_rev2
     [\<lparr>address = ''A'', balance = 10, index = 0, spent_local = False, spent_remote = False\<rparr>,
      \<lparr>address = ''A'', balance = 20, index = 0, spent_local = False, spent_remote = False\<rparr>,
      \<lparr>address = ''B'', balance = 9, index = 1, spent_local = False, spent_remote = False\<rparr>,
      \<lparr>address = ''C'', balance = 1, index = 2, spent_local = False, spent_remote = False\<rparr>]
     30 (Num 2) 2
   = Inr ([\<lparr>address = ''A'', balance = 10, security = 2, keyIndex = 0\<rparr>,
           \<lparr>address = ''A'', balance = 20, security = 2, keyIndex = 0\<rparr>], 30)
   \<and> \<not> distinct (map address
          [\<lparr>address = ''A'', balance = 10, security = 2, keyIndex = 0\<rparr>,
           \<lparr>address = ''A'', balance = 20, security = 2, keyIndex = 0\<rparr>])"
  by (simp add: select_eval search_eval)

text \<open>
  C10.  For a non-empty list of balances and a positive threshold the first call of
  \<open>calculate\<close> returns the record of the two arrays, for every limit and every
  \<open>MAX_CALL_TIMES\<close>.  For the empty list it returns \<^verbatim>\<open>undefined\<close> (with the default
  \<open>MAX_CALL_TIMES\<close>).  In the first revision of \<open>prepareInputs\<close> the search runs only when the
  greedy selection is longer than a positive limit; then the list of unique balances is not
  empty, the threshold is positive, and the destructuring of the result does not fail.
\<close>

theorem search_result_defined:
  "(balances \<noteq> [] \<and> 0 < threshold \<longrightarrow>
      (\<exists>exactMatches' exceeded'.
         subsetSumWithLimit limit m balances threshold = Some (exactMatches', exceeded')))
   \<and> subsetSumWithLimit limit DEFAULT_MAX_CALL_TIMES [] threshold = None
   \<and> (greedy inputs threshold [] 0 = Inr (sel, bal) \<and> 0 < maxInputs
        \<and> maxInputs < int (length sel) \<longrightarrow>
        map balance (uniqBy inputs) \<noteq> [] \<and> 0 < threshold
        \<and> subsetSumWithLimit maxInputs DEFAULT_MAX_CALL_TIMES (map balance (uniqBy inputs)) threshold
            \<noteq> None
        \<and> selectWithinLimit inputs threshold maxInputs \<noteq> Inl TYPE_ERROR)"
proof -
  have defined: "\<exists>em ex. subsetSumWithLimit l mc bs t = Some (em, ex)"
    if "bs \<noteq> []" "0 < t" for l mc bs t
    using calculate_defined[OF that] by (simp add: subsetSumWithLimit_def)
  have empty: "subsetSumWithLimit limit DEFAULT_MAX_CALL_TIMES [] threshold = None"
    by (simp add: subsetSumWithLimit_def calculate_empty)
  have reach: "map balance (uniqBy inputs) \<noteq> [] \<and> 0 < threshold
        \<and> subsetSumWithLimit maxInputs DEFAULT_MAX_CALL_TIMES (map balance (uniqBy inputs)) threshold
            \<noteq> None
        \<and> selectWithinLimit inputs threshold maxInputs \<noteq> Inl TYPE_ERROR"
    if g: "greedy inputs threshold [] 0 = Inr (sel, bal)" and "0 < maxInputs"
      and "maxInputs < int (length sel)"
  proof -
    have ne: "sel \<noteq> []" using that(2,3) by auto
    have pos: "0 < threshold"
    proof (rule ccontr)
      assume "\<not> 0 < threshold"
      then have "greedy inputs threshold [] 0 = Inr ([], 0)" by (simp add: greedy_done)
      with g ne show False by simp
    qed
    have "set sel \<subseteq> set inputs" using greedy_distinct[OF g] by simp
    with ne have "inputs \<noteq> []" by auto
    then have bs: "map balance (uniqBy inputs) \<noteq> []" by (simp add: uniqBy_Nil_iff)
    from defined[OF bs pos] obtain em ex where
      s: "subsetSumWithLimit maxInputs DEFAULT_MAX_CALL_TIMES (map balance (uniqBy inputs)) threshold
          = Some (em, ex)" by blast
    have "selectWithinLimit inputs threshold maxInputs \<noteq> Inl TYPE_ERROR"
      using s by (simp add: selectWithinLimit_def findSetWithMinSize_def Let_def split: option.splits)
    with bs pos s show ?thesis by simp
  qed
  show ?thesis using defined[of balances threshold limit m] empty reach by blast
qed

theorem search_result_defined_witness:
  "[1::int] \<noteq> [] \<and> (0::int) < 3
   \<and> subsetSumWithLimit 2 DEFAULT_MAX_CALL_TIMES [1] 3 = Some ([], [])
   \<and> greedy [\<lparr>address = ''A'', balance = 1, security = 2, keyIndex = 0\<rparr>,
              \<lparr>address = ''B'', balance = 1, security = 2, keyIndex = 1\<rparr>,
              \<lparr>address = ''C'', balance = 1, security = 2, keyIndex = 2\<rparr>] 3 [] 0
       = Inr ([\<lparr>address = ''A'', balance = 1, security = 2, keyIndex = 0\<rparr>,
               \<lparr>address = ''B'', balance = 1, security = 2, keyIndex = 1\<rparr>,
               \<lparr>address = ''C'', balance = 1, security = 2, keyIndex = 2\<rparr>], 3)
   \<and> (0::int) < 2
   \<and> 2 < int (length [\<lparr>address = ''A'', balance = 1, security = 2, keyIndex = 0\<rparr>,
               \<lparr>address = ''B'', balance = 1, security = 2, keyIndex = 1\<rparr>,
               \<lparr>address = ''C'', balance = 1, security = 2, keyIndex = 2\<rparr>])
   \<and> selectWithinLimit [\<lparr>address = ''A'', balance = 1, security = 2, keyIndex = 0\<rparr>,
              \<lparr>address = ''B'', balance = 1, security = 2, keyIndex = 1\<rparr>,
              \<lparr>address = ''C'', balance = 1, security = 2, keyIndex = 2\<rparr>] 3 2 \<noteq> Inl TYPE_ERROR"
proof -
  let ?inputs = "[\<lparr>address = ''A'', balance = 1, security = 2, keyIndex = 0\<rparr>,
              \<lparr>address = ''B'', balance = 1, security = 2, keyIndex = 1\<rparr>,
              \<lparr>address = ''C'', balance = 1, security = 2, keyIndex = 2\<rparr>]"
  have a: "[1::int] \<noteq> []" "(0::int) < 3" "(0::int) < 2" "2 < int (length ?inputs)"
    by simp_all
  have s: "subsetSumWithLimit 2 DEFAULT_MAX_CALL_TIMES [1] 3 = Some ([], [])"
    by (simp add: search_eval)
  have g: "greedy ?inputs 3 [] 0 = Inr (?inputs, 3)"
    by (simp add: greedy.simps sortInputsByOptimalValue_def differenceBy_def number_eval)
  from search_result_defined[of "[1]" 3 2 DEFAULT_MAX_CALL_TIMES ?inputs ?inputs 3 2] a g
  have "selectWithinLimit ?inputs 3 2 \<noteq> Inl TYPE_ERROR" by blast
  with a s g show ?thesis by blast
qed

text \<open>
  C7.  Let the total balance cover the threshold, the limit be acceptable and the first
  collaborator resolve.  Then \<open>getInputs\<close> filters in the order incoming, outgoing, spent,
  each filter on the result of the one before, and sums the balances after each filter:
  \<^item> if the sum after the incoming filter is below the threshold, the result is
    \<open>INCOMING_TRANSFERS\<close>, whatever the later filters would give;
  \<^item> otherwise, if the sum after the outgoing filter is below the threshold, the result is
    \<open>ADDRESS_HAS_PENDING_TRANSFERS\<close>, whatever the spent filter would give;
  \<^item> otherwise, if the spent filter resolves and the sum after it is below the threshold,
    the result is \<open>FUNDS_AT_SPENT_ADDRESSES\<close>;
  \<^item> otherwise the result is that of \<open>prepareInputs\<close> on the unspent address data.
  The same holds for the second revision.
\<close>

theorem getInputs_stages_fail_fast:
  "(\<not> jsSum (map balance addressData) < threshold \<and> lim \<noteq> Null
    \<and> filterNonFunded (filter (\<lambda>tx. transferValue tx \<noteq> 0) txs) addressData = Inr pending
    \<longrightarrow>
      (jsSum (map balance (omitIncoming addressData pending)) < threshold
        \<longrightarrow> getInputs filterNonFunded omitIncoming filterOutgoing pickUnspent
              addressData txs threshold lim = Inl INCOMING_TRANSFERS)
      \<and> (\<not> jsSum (map balance (omitIncoming addressData pending)) < threshold
          \<and> jsSum (map balance (filterOutgoing (omitIncoming addressData pending) txs))
              < threshold
        \<longrightarrow> getInputs filterNonFunded omitIncoming filterOutgoing pickUnspent
              addressData txs threshold lim = Inl ADDRESS_HAS_PENDING_TRANSFERS)
      \<and> (\<not> jsSum (map balance (omitIncoming addressData pending)) < threshold
          \<and> \<not> jsSum (map balance (filterOutgoing (omitIncoming addressData pending) txs))
              < threshold
          \<and> pickUnspent (filterOutgoing (omitIncoming addressData pending) txs) txs = Inr unspent
        \<longrightarrow> getInputs filterNonFunded omitIncoming filterOutgoing pickUnspent
              addressData txs threshold lim
            = (if jsSum (map balance unspent) < threshold then Inl FUNDS_AT_SPENT_ADDRESSES
               else prepareInputs unspent threshold
                      (case lim of Undefined \<Rightarrow> Num 0 | v \<Rightarrow> v) DEFAULT_SECURITY)))
   \<and> (\<not> jsSum (map balance addressData) < threshold
    \<and> filterNonFundedBundles (constructBundles transactions) = Inr fundedBundles
    \<longrightarrow>
      (jsSum (map balance (filterIncoming addressData (concat fundedBundles))) < threshold
        \<longrightarrow> getInputs_rev2 constructBundles filterNonFundedBundles filterIncoming
              filterOutgoing' filterSpent addressData transactions threshold lim
            = Inl INCOMING_TRANSFERS)
      \<and> (\<not> jsSum (map balance (filterIncoming addressData (concat fundedBundles))) < threshold
          \<and> jsSum (map balance
                (filterOutgoing' (filterIncoming addressData (concat fundedBundles)) transactions))
              < threshold
        \<longrightarrow> getInputs_rev2 constructBundles filterNonFundedBundles filterIncoming
              filterOutgoing' filterSpent addressData transactions threshold lim
            = Inl ADDRESS_HAS_PENDING_TRANSFERS)
      \<and> (\<not> jsSum (map balance (filterIncoming addressData (concat fundedBundles))) < threshold
          \<and> \<not> jsSum (map balance
                (filterOutgoing' (filterIncoming addressData (concat fundedBundles)) transactions))
              < threshold
          \<and> filterSpent
                (filterOutgoing' (filterIncoming addressData (concat fundedBundles)) transactions)
                transactions = Inr unspent'
        \<longrightarrow> getInputs_rev2 constructBundles filterNonFundedBundles filterIncoming
              filterOutgoing' filterSpent addressData transactions threshold lim
            = (if jsSum (map balance unspent') < threshold then Inl FUNDS_AT_SPENT_ADDRESSES
               else prepareInputs_rev2 unspent' threshold
                      (case lim of Undefined \<Rightarrow> Null | v \<Rightarrow> v) DEFAULT_SECURITY)))"
proof -
  have rev1:
    "getInputs filterNonFunded omitIncoming filterOutgoing pickUnspent addressData txs threshold lim
     = (if jsSum (map balance (omitIncoming addressData pending)) < threshold
        then Inl INCOMING_TRANSFERS
        else if jsSum (map balance (filterOutgoing (omitIncoming addressData pending) txs))
                  < threshold
        then Inl ADDRESS_HAS_PENDING_TRANSFERS
        else (case pickUnspent (filterOutgoing (omitIncoming addressData pending) txs) txs of
                Inl e \<Rightarrow> Inl e
              | Inr unspentAddressData \<Rightarrow>
                  if jsSum (map balance unspentAddressData) < threshold
                  then Inl FUNDS_AT_SPENT_ADDRESSES
                  else prepareInputs unspentAddressData threshold
                         (case lim of Undefined \<Rightarrow> Num 0 | v \<Rightarrow> v) DEFAULT_SECURITY))"
    if "\<not> jsSum (map balance addressData) < threshold" "lim \<noteq> Null"
      "filterNonFunded (filter (\<lambda>tx. transferValue tx \<noteq> 0) txs) addressData = Inr pending"
    using that by (cases lim) (auto simp: getInputs_def Let_def split: sum.splits)
  have rev2:
    "getInputs_rev2 constructBundles filterNonFundedBundles filterIncoming filterOutgoing'
       filterSpent addressData transactions threshold lim
     = (if jsSum (map balance (filterIncoming addressData (concat fundedBundles))) < threshold
        then Inl INCOMING_TRANSFERS
        else if jsSum (map balance
                  (filterOutgoing' (filterIncoming addressData (concat fundedBundles)) transactions))
                  < threshold
        then Inl ADDRESS_HAS_PENDING_TRANSFERS
        else (case filterSpent
                     (filterOutgoing' (filterIncoming addressData (concat fundedBundles)) transactions)
                     transactions of
                Inl e \<Rightarrow> Inl e
              | Inr unspentAddressData \<Rightarrow>
                  if jsSum (map balance unspentAddressData) < threshold
                  then Inl FUNDS_AT_SPENT_ADDRESSES
                  else prepareInputs_rev2 unspentAddressData threshold
                         (case lim of Undefined \<Rightarrow> Null | v \<Rightarrow> v) DEFAULT_SECURITY))"
    if "\<not> jsSum (map balance addressData) < threshold"
      "filterNonFundedBundles (constructBundles transactions) = Inr fundedBundles"
    using that by (simp add: getInputs_rev2_def Let_def)
  show ?thesis
  proof (intro conjI impI)
    qed (use rev1 rev2 in \<open>simp_all\<close>)
qed

theorem getInputs_stages_fail_fast_witness:
  "getInputs example_filterNonFunded example_omitIncoming example_filterOutgoing
     example_pickUnspent example_addressData example_transactions 35 Undefined
     = Inl INCOMING_TRANSFERS
   \<and> getInputs example_filterNonFunded example_omitIncoming example_filterOutgoing
     example_pickUnspent example_addressData example_transactions 25 Undefined
     = Inl ADDRESS_HAS_PENDING_TRANSFERS
   \<and> getInputs example_filterNonFunded example_omitIncoming example_filterOutgoing
     example_pickUnspent example_addressData example_transactions 15 Undefined
     = Inl FUNDS_AT_SPENT_ADDRESSES
   \<and> getInputs example_filterNonFunded example_omitIncoming example_filterOutgoing
     example_pickUnspent example_addressData example_transactions 10 Undefined
     = prepareInputs
         [\<lparr>address = ''D'', balance = 10, index = 3, spent_local = False, spent_remote = False\<rparr>]
         10 (Num 0) DEFAULT_SECURITY
   \<and> getInputs_rev2 example_constructBundles example_filterNonFundedBundles
     example_omitIncoming example_filterOutgoing example_pickUnspent
     example_addressData example_transactions 35 Undefined
     = Inl INCOMING_TRANSFERS
   \<and> getInputs_rev2 example_constructBundles example_filterNonFundedBundles
     example_omitIncoming example_filterOutgoing example_pickUnspent
     example_addressData example_transactions 25 Undefined
     = Inl ADDRESS_HAS_PENDING_TRANSFERS
   \<and> getInputs_rev2 example_constructBundles example_filterNonFundedBundles
     example_omitIncoming example_filterOutgoing example_pickUnspent
     example_addressData example_transactions 15 Undefined
     = Inl FUNDS_AT_SPENT_ADDRESSES"
proof -
  let ?pending =
    "[\<lparr>tx_address = ''A'', transferValue = 5, bundleHash = ''X'', persistence = False\<rparr>,
      \<lparr>tx_address = ''B'', transferValue = - 3, bundleHash = ''Y'', persistence = False\<rparr>]"
  let ?bundles =
    "[[\<lparr>tx_address = ''A'', transferValue = 5, bundleHash = ''X'', persistence = False\<rparr>],
      [\<lparr>tx_address = ''B'', transferValue = - 3, bundleHash = ''Y'', persistence = False\<rparr>],
      [\<lparr>tx_address = ''D'', transferValue = 0, bundleHash = ''Z'', persistence = False\<rparr>]]"
  let ?unspent =
    "[\<lparr>address = ''D'', balance = 10, index = 3, spent_local = False, spent_remote = False\<rparr>]"
  note inst = getInputs_stages_fail_fast[where addressData = example_addressData
      and lim = Undefined and filterNonFunded = example_filterNonFunded
      and omitIncoming = example_omitIncoming and filterOutgoing = example_filterOutgoing
      and pickUnspent = example_pickUnspent and txs = example_transactions
      and pending = ?pending and unspent = ?unspent
      and constructBundles = example_constructBundles
      and filterNonFundedBundles = example_filterNonFundedBundles
      and filterIncoming = example_omitIncoming and filterOutgoing' = example_filterOutgoing
      and filterSpent = example_pickUnspent and transactions = example_transactions
      and fundedBundles = ?bundles and unspent' = ?unspent]
  have pre: "example_filterNonFunded (filter (\<lambda>tx. transferValue tx \<noteq> 0) example_transactions)
               example_addressData = Inr ?pending"
    "example_filterNonFundedBundles (example_constructBundles example_transactions) = Inr ?bundles"
    by (simp_all add: example_defs number_eval)
  have sums: "jsSum (map balance example_addressData) = 40"
    "jsSum (map balance (example_omitIncoming example_addressData ?pending)) = 30"
    "jsSum (map balance (example_omitIncoming example_addressData (concat ?bundles))) = 30"
    "jsSum (map balance (example_filterOutgoing
        (example_omitIncoming example_addressData ?pending) example_transactions)) = 20"
    "jsSum (map balance (example_filterOutgoing
        (example_omitIncoming example_addressData (concat ?bundles)) example_transactions)) = 20"
    by (simp_all add: example_defs number_eval)
  have spent: "example_pickUnspent (example_filterOutgoing
        (example_omitIncoming example_addressData ?pending) example_transactions)
        example_transactions = Inr ?unspent"
    "example_pickUnspent (example_filterOutgoing
        (example_omitIncoming example_addressData (concat ?bundles)) example_transactions)
        example_transactions = Inr ?unspent"
    by (simp_all add: example_defs number_eval)
  show ?thesis
    using inst[where threshold = 35] inst[where threshold = 25] inst[where threshold = 15]
      inst[where threshold = 10]
    unfolding pre sums spent by (simp add: number_eval)
qed

text \<open>
  C8 (as amended).  The check rejects with the not-synced signal when both milestone hashes
  are the sentinel, and when they differ, unless the solid milestone index is exactly one
  behind the latest one and the latest milestone is not the sentinel.  In that case, and
  when the hashes agree, are not the sentinel, and the difference of the milestone indices
  is 0 or 1, it resolves: to true when the timestamp of the sampled transaction is less than
  five minutes before now, to false (it does not reject) when it is more than five minutes
  before now.
\<close>

theorem isSynced_verdicts:
  "(latestMilestone info = EMPTY_HASH_TRYTES
      \<and> latestSolidSubtangleMilestone info = EMPTY_HASH_TRYTES
      \<longrightarrow> isSynced info timestamp now = Some (Inl NODE_NOT_SYNCED))
   \<and> (latestMilestone info \<noteq> latestSolidSubtangleMilestone info
      \<and> \<not> (one_behind info \<and> latestMilestone info \<noteq> EMPTY_HASH_TRYTES)
      \<longrightarrow> isSynced info timestamp now = Some (Inl NODE_NOT_SYNCED))
   \<and> ((latestMilestone info \<noteq> latestSolidSubtangleMilestone info
        \<and> one_behind info \<and> latestMilestone info \<noteq> EMPTY_HASH_TRYTES)
       \<or> (latestMilestone info = latestSolidSubtangleMilestone info
        \<and> latestMilestone info \<noteq> EMPTY_HASH_TRYTES
        \<and> latestMilestoneIndex info = Some a \<and> latestSolidSubtangleMilestoneIndex info = Some b
        \<and> (a - b = 0 \<or> a - b = 1))
      \<longrightarrow> (now - timestamp < FIVE_MINUTES \<longrightarrow> isSynced info timestamp now = Some (Inr True))
          \<and> (FIVE_MINUTES < now - timestamp \<longrightarrow> isSynced info timestamp now = Some (Inr False)))"
  by (auto simp: isSynced_def Let_def)

theorem isSynced_verdicts_witness:
  "isSynced \<lparr>latestMilestone = EMPTY_HASH_TRYTES, latestMilestoneIndex = None,
        latestSolidSubtangleMilestone = EMPTY_HASH_TRYTES,
        latestSolidSubtangleMilestoneIndex = None\<rparr> 1000000 1060000
     = Some (Inl NODE_NOT_SYNCED)
   \<and> isSynced \<lparr>latestMilestone = EMPTY_HASH_TRYTES, latestMilestoneIndex = None,
        latestSolidSubtangleMilestone = replicate 81 (CHR ''U''),
        latestSolidSubtangleMilestoneIndex = None\<rparr> 1000000 1060000
     = Some (Inl NODE_NOT_SYNCED)
   \<and> isSynced \<lparr>latestMilestone = replicate 81 (CHR ''U''), latestMilestoneIndex = Some 426550,
        latestSolidSubtangleMilestone = replicate 81 (CHR ''A''),
        latestSolidSubtangleMilestoneIndex = Some 426549\<rparr> 1000000 1060000
     = Some (Inr True)
   \<and> isSynced \<lparr>latestMilestone = replicate 81 (CHR ''U''), latestMilestoneIndex = Some 426550,
        latestSolidSubtangleMilestone = replicate 81 (CHR ''A''),
        latestSolidSubtangleMilestoneIndex = Some 426549\<rparr> 1000000 1360000
     = Some (Inr False)
   \<and> isSynced \<lparr>latestMilestone = replicate 81 (CHR ''U''), latestMilestoneIndex = Some 426550,
        latestSolidSubtangleMilestone = replicate 81 (CHR ''U''),
        latestSolidSubtangleMilestoneIndex = Some 426549\<rparr> 1000000 1060000
     = Some (Inr True)
   \<and> isSynced \<lparr>latestMilestone = replicate 81 (CHR ''U''), latestMilestoneIndex = Some 426550,
        latestSolidSubtangleMilestone = replicate 81 (CHR ''U''),
        latestSolidSubtangleMilestoneIndex = Some 426550\<rparr> 1000000 1360000
     = Some (Inr False)"
proof -
  have ne: "replicate 81 (CHR ''U'') \<noteq> EMPTY_HASH_TRYTES"
    "EMPTY_HASH_TRYTES \<noteq> replicate 81 (CHR ''U'')"
    "replicate 81 (CHR ''U'') \<noteq> replicate 81 (CHR ''A'')"
    by (simp_all add: EMPTY_HASH_TRYTES_def)
  show ?thesis
    using ne
      isSynced_verdicts[where info = "\<lparr>latestMilestone = EMPTY_HASH_TRYTES, latestMilestoneIndex = None,
        latestSolidSubtangleMilestone = EMPTY_HASH_TRYTES,
        latestSolidSubtangleMilestoneIndex = None\<rparr>"
        and timestamp = 1000000 and now = 1060000]
      isSynced_verdicts[where info = "\<lparr>latestMilestone = EMPTY_HASH_TRYTES, latestMilestoneIndex = None,
        latestSolidSubtangleMilestone = replicate 81 (CHR ''U''),
        latestSolidSubtangleMilestoneIndex = None\<rparr>"
        and timestamp = 1000000 and now = 1060000]
      isSynced_verdicts[where info = "\<lparr>latestMilestone = replicate 81 (CHR ''U''), latestMilestoneIndex = Some 426550,
        latestSolidSubtangleMilestone = replicate 81 (CHR ''A''),
        latestSolidSubtangleMilestoneIndex = Some 426549\<rparr>"
        and timestamp = 1000000 and now = 1060000 and a = 426550 and b = 426549]
      isSynced_verdicts[where info = "\<lparr>latestMilestone = replicate 81 (CHR ''U''), latestMilestoneIndex = Some 426550,
        latestSolidSubtangleMilestone = replicate 81 (CHR ''A''),
        latestSolidSubtangleMilestoneIndex = Some 426549\<rparr>"
        and timestamp = 1000000 and now = 1360000 and a = 426550 and b = 426549]
      isSynced_verdicts[where info = "\<lparr>latestMilestone = replicate 81 (CHR ''U''), latestMilestoneIndex = Some 426550,
        latestSolidSubtangleMilestone = replicate 81 (CHR ''U''),
        latestSolidSubtangleMilestoneIndex = Some 426549\<rparr>"
        and timestamp = 1000000 and now = 1060000 and a = 426550 and b = 426549]
      isSynced_verdicts[where info = "\<lparr>latestMilestone = replicate 81 (CHR ''U''), latestMilestoneIndex = Some 426550,
        latestSolidSubtangleMilestone = replicate 81 (CHR ''U''),
        latestSolidSubtangleMilestoneIndex = Some 426550\<rparr>"
        and timestamp = 1000000 and now = 1360000 and a = 426550 and b = 426550]
    by (simp add: FIVE_MINUTES_def one_behind_def)
qed

text \<open>
  C8 as stated fails where the repository's test pins the behaviour: with the hashes 81
  times \<open>U\<close> and 81 times \<open>A\<close>, which differ, and the solid milestone index one behind,
  the check does not reject; it resolves to true for a timestamp one minute old and to
  false for one six minutes old, as the test expects.
\<close>

theorem isSynced_resolves_on_differing_hashes_one_behind:
  "replicate 81 (CHR ''U'') \<noteq> replicate 81 (CHR ''A'')
   \<and> isSynced \<lparr>latestMilestone = replicate 81 (CHR ''U''), latestMilestoneIndex = Some 426550,
        latestSolidSubtangleMilestone = replicate 81 (CHR ''A''),
        latestSolidSubtangleMilestoneIndex = Some (426550 - 1)\<rparr> 1000000 1060000
     = Some (Inr True)
   \<and> isSynced \<lparr>latestMilestone = replicate 81 (CHR ''U''), latestMilestoneIndex = Some 426550,
        latestSolidSubtangleMilestone = replicate 81 (CHR ''A''),
        latestSolidSubtangleMilestoneIndex = Some (426550 - 1)\<rparr> 1000000 1360000
     = Some (Inr False)"
  by (simp add: isSynced_def one_behind_def EMPTY_HASH_TRYTES_def FIVE_MINUTES_def)

end
